theory Spec2Isabelle
  imports Main
begin

section \<open>Exceptions, tensors and the tensor library\<close>

text \<open>
  The notebook \<^verbatim>\<open>Part 6 - Build an Encrypted, Decentralized Database\<close> defines three
  key-value stores: \<^verbatim>\<open>TensorDB\<close> (Section 5, plaintext tensors, hashed keys),
  \<^verbatim>\<open>DecentralizedDB\<close> of Section 6 (shared tensors, hashed keys, retry on a sentinel
  decode) and \<^verbatim>\<open>DecentralizedDB\<close> of Section 7 (shared tensors, one-hot keys,
  fixed-length values). Each is embedded below, suffixed by its section.

  A Python exception is a value of \<open>py_error\<close>; a function that can raise returns
  \<open>py_error + 'a\<close>. \<open>TorchError\<close> stands for the errors of the tensor library (shapes
  that cannot be combined, concatenating an empty list). \<open>RecursionError\<close> is the
  exception with which the interpreter ends a recursion deeper than its recursion limit.
\<close>

datatype py_error = KeyError | IndexError | TorchError | RecursionError

type_synonym 'a result = "py_error + 'a"

text \<open>
  A one-dimensional \<^verbatim>\<open>LongTensor\<close> is the list of its elements, a two-dimensional one
  the list of its rows. The tensor that holds one hashed key (\<^verbatim>\<open>LongTensor([n])\<close>) and
  the one-element result of comparing two of them are modelled by their single element.
  Sharing a tensor among the owners and getting it back (\<^verbatim>\<open>share\<close>, \<^verbatim>\<open>send\<close>,
  \<^verbatim>\<open>get\<close>) belong to the library: a shared tensor is modelled by the plaintext tensor
  it stands for, and every operation on shares by the operation on those plaintexts.
  Only the reconstruction of Section 6, whose outcome the notebook describes as random,
  is a parameter (see \<open>query_s6_from\<close>).
\<close>

type_synonym tensor = "int list"

type_synonym matrix = "int list list"

text \<open>
  The field of the library, \<^verbatim>\<open>sy.mpc.securenn.field\<close>, is the modulus of the ring in
  which the shares live: a positive integer.
\<close>

typedef modulus = "{n :: int. 0 < n}"
  by (rule exI[of _ 1]) simp

setup_lifting type_definition_modulus

text \<open>
  A \<^verbatim>\<open>for\<close> loop that appends \<open>f x\<close> for every \<open>x\<close>: the first exception leaves it.
\<close>

fun traverse :: "('a \<Rightarrow> 'b result) \<Rightarrow> 'a list \<Rightarrow> 'b list result" where
  "traverse f [] = Inr []"
| "traverse f (x # xs) =
     (case f x of
        Inl e \<Rightarrow> Inl e
      | Inr y \<Rightarrow> (case traverse f xs of Inl e \<Rightarrow> Inl e | Inr ys \<Rightarrow> Inr (y # ys)))"

text \<open>
  Elementwise \<^verbatim>\<open>a + b\<close> and \<^verbatim>\<open>a * b\<close> of one-dimensional tensors, as the library
  computes them: tensors of one length are combined position by position, a tensor of one
  element is broadcast over the other, any other pair of lengths is refused.
\<close>

definition tensor_binop :: "(int \<Rightarrow> int \<Rightarrow> int) \<Rightarrow> tensor \<Rightarrow> tensor \<Rightarrow> tensor result" where
  "tensor_binop f a b =
     (if length a = length b then Inr (map2 f a b)
      else if length a = 1 then Inr (map (f (hd a)) b)
      else if length b = 1 then Inr (map (\<lambda>x. f x (hd b)) a)
      else Inl TorchError)"

definition tensor_add :: "tensor \<Rightarrow> tensor \<Rightarrow> tensor result" where
  "tensor_add = tensor_binop (+)"

definition tensor_mul :: "tensor \<Rightarrow> tensor \<Rightarrow> tensor result" where
  "tensor_mul = tensor_binop (*)"

text \<open>
  \<^verbatim>\<open>km.expand(value.shape)\<close> and \<^verbatim>\<open>km.expand(1, shape[0])[0]\<close>: the one-element
  tensor \<open>km\<close> repeated over the length of the value.
\<close>

definition expand :: "int \<Rightarrow> nat \<Rightarrow> tensor" where
  "expand km n = replicate n km"

text \<open>
  The three loops every \<^verbatim>\<open>query\<close> of the notebook ends with. \<open>value_match_of\<close> is
  \<^verbatim>\<open>for i, value in enumerate(values): value_match.append(key_match[i].expand(...) * value)\<close>,
  where \<^verbatim>\<open>key_match[i]\<close> raises \<^verbatim>\<open>IndexError\<close> beyond the end of \<open>key_match\<close>.
  \<open>sum_values\<close> is
  \<^verbatim>\<open>final_value = value_match[0]; for v in value_match[1:]: final_value = final_value + v\<close>,
  where \<^verbatim>\<open>value_match[0]\<close> raises \<^verbatim>\<open>IndexError\<close> on an empty list.
\<close>

definition value_match_of :: "int list \<Rightarrow> tensor list \<Rightarrow> tensor list result" where
  "value_match_of key_match vs =
     traverse (\<lambda>(i, v).
        if i < length key_match then tensor_mul (expand (key_match ! i) (length v)) v
        else Inl IndexError) (enumerate 0 vs)"

definition sum_values :: "tensor list \<Rightarrow> tensor result" where
  "sum_values value_match =
     (case value_match of
        [] \<Rightarrow> Inl IndexError
      | v0 # rest \<Rightarrow>
          fold (\<lambda>v acc. case acc of Inl e \<Rightarrow> Inl e | Inr a \<Rightarrow> tensor_add a v) rest (Inr v0))"

section \<open>Alphabets and code tables\<close>

text \<open>
  \<^verbatim>\<open>string.punctuation\<close>, \<^verbatim>\<open>string.ascii_lowercase\<close>, \<^verbatim>\<open>string.ascii_letters\<close>
  of Python's standard library, and the digits the notebook writes out.
\<close>

definition punctuation :: string where
  "punctuation = ''!'' @ [CHR 0x22] @ ''#$%&'' @ [CHR 0x27] @ ''()*+,-./:;<=>?@['' @
     [CHR 0x5C] @ '']^_'' @ [CHR 0x60] @ ''{|}~''"

definition ascii_lowercase :: string where
  "ascii_lowercase = ''abcdefghijklmnopqrstuvwxyz''"

definition ascii_uppercase :: string where
  "ascii_uppercase = ''ABCDEFGHIJKLMNOPQRSTUVWXYZ''"

definition ascii_letters :: string where
  "ascii_letters = ascii_lowercase @ ascii_uppercase"

definition digits :: string where
  "digits = ''0123456789''"

text \<open>
  The alphabet of Sections 2, 5 and 6 (95 symbols) and the one of Section 7 (69 symbols,
  lower case only).
\<close>

definition alphabet_s5 :: string where
  "alphabet_s5 = '' '' @ ascii_letters @ digits @ punctuation"

definition alphabet_s7 :: string where
  "alphabet_s7 = '' '' @ ascii_lowercase @ digits @ punctuation"

text \<open>
  \<^verbatim>\<open>for i, c in enumerate(alphabet): char2int[c] = i; int2char[i] = c\<close>, starting from
  two empty dictionaries.
\<close>

definition char2int_of :: "string \<Rightarrow> (char \<rightharpoonup> nat)" where
  "char2int_of alphabet = fold (\<lambda>(i, c) m. m(c \<mapsto> i)) (enumerate 0 alphabet) Map.empty"

definition int2char_of :: "string \<Rightarrow> (int \<rightharpoonup> char)" where
  "int2char_of alphabet = fold (\<lambda>(i, c) m. m(int i \<mapsto> c)) (enumerate 0 alphabet) Map.empty"

definition char2int_s5 :: "char \<rightharpoonup> nat" where
  "char2int_s5 = char2int_of alphabet_s5"

definition int2char_s5 :: "int \<rightharpoonup> char" where
  "int2char_s5 = int2char_of alphabet_s5"

definition char2int_s7 :: "char \<rightharpoonup> nat" where
  "char2int_s7 = char2int_of alphabet_s7"

definition int2char_s7 :: "int \<rightharpoonup> char" where
  "int2char_s7 = int2char_of alphabet_s7"

text \<open>
  \<^verbatim>\<open>str.lower()\<close>. A \<open>char\<close> is one of the code points 0 to 255; among them
  Python lowers A to Z and the capital letters of Latin-1 (192 to 222 but the
  multiplication sign 215) by adding 32. Strings with code points above 255 are outside
  the model.
\<close>

definition lower_char :: "char \<Rightarrow> char" where
  "lower_char c =
     (let n = (of_char c :: nat) in
      if (65 \<le> n \<and> n \<le> 90) \<or> (192 \<le> n \<and> n \<le> 222 \<and> n \<noteq> 215) then char_of (n + 32) else c)"

definition lower :: "string \<Rightarrow> string" where
  "lower s = map lower_char s"

section \<open>Section 5: TensorDB\<close>

text \<open>
  \<^verbatim>\<open>string2key\<close> of Section 5: \<^verbatim>\<open>hash(input_str) % sy.mpc.securenn.field\<close>.
  Python's \<^verbatim>\<open>hash\<close> of a string is fixed within one process only, and the field is a
  constant of the library: both are parameters, \<open>hash\<close> and \<open>fld\<close>. Python's \<^verbatim>\<open>%\<close>
  with a positive right operand is \<open>mod\<close> on \<open>int\<close>, with a result from 0 up to the
  operand.
\<close>

definition string2key_s5 :: "(string \<Rightarrow> int) \<Rightarrow> modulus \<Rightarrow> string \<Rightarrow> int" where
  "string2key_s5 hash fld input_str = hash input_str mod Rep_modulus fld"

text \<open>
  \<^verbatim>\<open>string2values\<close> of Sections 2, 5 and 6: \<^verbatim>\<open>char2int[char]\<close> raises
  \<^verbatim>\<open>KeyError\<close> for a character outside the alphabet.
\<close>

definition string2values_s5 :: "string \<Rightarrow> tensor result" where
  "string2values_s5 input_str =
     traverse (\<lambda>char. case char2int_s5 char of None \<Rightarrow> Inl KeyError | Some i \<Rightarrow> Inr (int i))
       input_str"

text \<open>\<^verbatim>\<open>values2string\<close> of Sections 2 and 5: \<^verbatim>\<open>int2char[int(v)]\<close> raises too.\<close>

definition values2string_s5 :: "tensor \<Rightarrow> string result" where
  "values2string_s5 input_values =
     traverse (\<lambda>v. case int2char_s5 v of None \<Rightarrow> Inl KeyError | Some c \<Rightarrow> Inr c) input_values"

record tensor_db =
  tdb_keys :: "int list"
  tdb_values :: "tensor list"

definition TensorDB :: tensor_db where
  "TensorDB = \<lparr>tdb_keys = [], tdb_values = []\<rparr>"

text \<open>
  \<^verbatim>\<open>TensorDB.add_entry\<close> appends the key before it encodes the value: when the value
  raises, the key stays appended. The result is the exception, if any, and the new state.
\<close>

definition add_entry_s5 ::
  "(string \<Rightarrow> int) \<Rightarrow> modulus \<Rightarrow> tensor_db \<Rightarrow> string \<Rightarrow> string \<Rightarrow> py_error option \<times> tensor_db" where
  "add_entry_s5 hash fld db string_key string_value =
     (let db1 = db\<lparr>tdb_keys := tdb_keys db @ [string2key_s5 hash fld string_key]\<rparr> in
      case string2values_s5 string_value of
        Inl e \<Rightarrow> (Some e, db1)
      | Inr v \<Rightarrow> (None, db1\<lparr>tdb_values := tdb_values db1 @ [v]\<rparr>))"

text \<open>
  \<^verbatim>\<open>TensorDB.query\<close>, up to \<open>final_value\<close> and whole. \<^verbatim>\<open>(key == qhash).long()\<close> is 1
  for equal keys and 0 otherwise.
\<close>

definition final_value_s5 :: "(string \<Rightarrow> int) \<Rightarrow> modulus \<Rightarrow> tensor_db \<Rightarrow> string \<Rightarrow> tensor result" where
  "final_value_s5 hash fld db str_query =
     (let qhash = string2key_s5 hash fld str_query;
          key_match = map (\<lambda>key. if key = qhash then 1 else 0) (tdb_keys db)
      in case value_match_of key_match (tdb_values db) of
           Inl e \<Rightarrow> Inl e
         | Inr value_match \<Rightarrow> sum_values value_match)"

definition query_s5 :: "(string \<Rightarrow> int) \<Rightarrow> modulus \<Rightarrow> tensor_db \<Rightarrow> string \<Rightarrow> string result" where
  "query_s5 hash fld db str_query =
     (case final_value_s5 hash fld db str_query of
        Inl e \<Rightarrow> Inl e
      | Inr final_value \<Rightarrow> values2string_s5 final_value)"

section \<open>Section 6: DecentralizedDB with hashed keys\<close>

text \<open>\<^verbatim>\<open>string2key\<close> of Section 6: \<^verbatim>\<open>(hash(input_str)+1234) % int(sy.mpc.securenn.field)\<close>.\<close>

definition string2key_s6 :: "(string \<Rightarrow> int) \<Rightarrow> modulus \<Rightarrow> string \<Rightarrow> int" where
  "string2key_s6 hash fld input_str = (hash input_str + 1234) mod Rep_modulus fld"

text \<open>
  \<^verbatim>\<open>values2string\<close> of Section 6, which Section 7 keeps: a code outside the table
  decodes to the sentinel \<^verbatim>\<open>.\<close>. It reads the global \<^verbatim>\<open>int2char\<close> when it is called
  (the table of Section 6 there, the one of Section 7 after its cell ran), so the table
  is a parameter.
\<close>

definition values2string_s6 :: "(int \<rightharpoonup> char) \<Rightarrow> tensor \<Rightarrow> string" where
  "values2string_s6 int2char input_values =
     map (\<lambda>v. case int2char v of Some c \<Rightarrow> c | None \<Rightarrow> CHR ''.'') input_values"

record hashed_db =
  hdb_owners :: "string list"
  hdb_keys :: "int list"
  hdb_values :: "tensor list"

definition DecentralizedDB_s6 :: "string list \<Rightarrow> hashed_db" where
  "DecentralizedDB_s6 owners = \<lparr>hdb_owners = owners, hdb_keys = [], hdb_values = []\<rparr>"

text \<open>
  \<^verbatim>\<open>add_entry\<close> encodes key and value first and appends both afterwards: when the value
  raises, the state is the old one (the result is the exception alone).
\<close>

definition add_entry_s6 ::
  "(string \<Rightarrow> int) \<Rightarrow> modulus \<Rightarrow> hashed_db \<Rightarrow> string \<Rightarrow> string \<Rightarrow> hashed_db result" where
  "add_entry_s6 hash fld db string_key string_value =
     (let key = string2key_s6 hash fld string_key in
      case string2values_s5 string_value of
        Inl e \<Rightarrow> Inl e
      | Inr v \<Rightarrow> Inr (db\<lparr>hdb_keys := hdb_keys db @ [key], hdb_values := hdb_values db @ [v]\<rparr>))"

text \<open>
  One pass of \<^verbatim>\<open>query\<close>, from hashing the query to \<^verbatim>\<open>values2string(final_value.get())\<close>.
  \<open>get\<close> is the reconstruction of the shares of \<open>final_value\<close> in this pass; the exact
  one is the identity.
\<close>

definition final_value_s6 :: "(string \<Rightarrow> int) \<Rightarrow> modulus \<Rightarrow> hashed_db \<Rightarrow> string \<Rightarrow> tensor result" where
  "final_value_s6 hash fld db str_query =
     (let qhash = string2key_s6 hash fld str_query;
          key_match = map (\<lambda>key. if key = qhash then 1 else 0) (hdb_keys db)
      in case value_match_of key_match (hdb_values db) of
           Inl e \<Rightarrow> Inl e
         | Inr value_match \<Rightarrow> sum_values value_match)"

definition attempt_s6 ::
  "(tensor \<Rightarrow> tensor) \<Rightarrow> (string \<Rightarrow> int) \<Rightarrow> modulus \<Rightarrow> hashed_db \<Rightarrow> string \<Rightarrow> string result" where
  "attempt_s6 get hash fld db str_query =
     (case final_value_s6 hash fld db str_query of
        Inl e \<Rightarrow> Inl e
      | Inr final_value \<Rightarrow> Inr (values2string_s6 int2char_s5 (get final_value)))"

text \<open>
  One pass of \<^verbatim>\<open>query\<close> with its last test,
  \<^verbatim>\<open>if(list(set(result))[0] == '.'): return self.query(str_query)\<close>: the pass is
  finished, with a result or an exception, or it asks for the recursive call. The order in
  which Python lists a set of characters is not fixed by the language: \<open>set_list\<close> is a
  parameter, the list of the distinct characters of a string in that order. Indexing the
  empty list raises \<^verbatim>\<open>IndexError\<close>.
\<close>

datatype pass = Retry | Finished "string result"

definition pass_s6 ::
  "(string \<Rightarrow> string) \<Rightarrow> (tensor \<Rightarrow> tensor) \<Rightarrow> (string \<Rightarrow> int) \<Rightarrow> modulus \<Rightarrow> hashed_db \<Rightarrow> string \<Rightarrow>
     pass" where
  "pass_s6 set_list get hash fld db str_query =
     (case attempt_s6 get hash fld db str_query of
        Inl e \<Rightarrow> Finished (Inl e)
      | Inr result \<Rightarrow>
          (case set_list result of
             [] \<Rightarrow> Finished (Inl IndexError)
           | c # _ \<Rightarrow> if c = CHR ''.'' then Retry else Finished (Inr result)))"

text \<open>
  \<^verbatim>\<open>query\<close> calls itself with no bound of its own. The interpreter bounds it: a call
  deeper than its recursion limit raises \<^verbatim>\<open>RecursionError\<close>, which no frame of the
  query catches. \<open>limit\<close> is the number of nested calls of \<^verbatim>\<open>query\<close> for which the
  stack has room when the query is called (somewhat under 1000 with the interpreter's
  default limit); the call from the notebook itself has room. \<open>gets n\<close> is the
  reconstruction of the \<open>n\<close>-th pass, and \<open>query_s6_from\<close> the query from pass \<open>n\<close>
  on.
\<close>

fun query_s6_from ::
  "(string \<Rightarrow> string) \<Rightarrow> (nat \<Rightarrow> tensor \<Rightarrow> tensor) \<Rightarrow> (string \<Rightarrow> int) \<Rightarrow> modulus \<Rightarrow> hashed_db \<Rightarrow> string \<Rightarrow>
     nat \<Rightarrow> nat \<Rightarrow> string result" where
  "query_s6_from set_list gets hash fld db str_query 0 n =
     (case pass_s6 set_list (gets n) hash fld db str_query of
        Finished r \<Rightarrow> r
      | Retry \<Rightarrow> Inl RecursionError)"
| "query_s6_from set_list gets hash fld db str_query (Suc limit) n =
     (case pass_s6 set_list (gets n) hash fld db str_query of
        Finished r \<Rightarrow> r
      | Retry \<Rightarrow> query_s6_from set_list gets hash fld db str_query limit (Suc n))"

definition query_s6 ::
  "(string \<Rightarrow> string) \<Rightarrow> (nat \<Rightarrow> tensor \<Rightarrow> tensor) \<Rightarrow> nat \<Rightarrow> (string \<Rightarrow> int) \<Rightarrow> modulus \<Rightarrow> hashed_db \<Rightarrow>
     string \<Rightarrow> string result" where
  "query_s6 set_list gets limit hash fld db str_query =
     query_s6_from set_list gets hash fld db str_query limit 0"

text \<open>
  Three readings of the decoded result of a pass (or its exception) that do not depend
  on the order of \<open>set_list\<close>: the result is not empty and every character of it is the
  sentinel; the pass raised, or its result has no sentinel; and what the pass returns or
  raises in the second case.
\<close>

definition all_sentinel :: "string result \<Rightarrow> bool" where
  "all_sentinel r =
     (case r of Inl e \<Rightarrow> False | Inr s \<Rightarrow> s \<noteq> [] \<and> list_all (\<lambda>c. c = CHR ''.'') s)"

definition no_sentinel :: "string result \<Rightarrow> bool" where
  "no_sentinel r = (case r of Inl e \<Rightarrow> True | Inr s \<Rightarrow> CHR ''.'' \<notin> set s)"

definition final_outcome :: "string result \<Rightarrow> string result" where
  "final_outcome r =
     (case r of Inl e \<Rightarrow> Inl e | Inr s \<Rightarrow> if s = [] then Inl IndexError else Inr s)"

section \<open>Section 7: DecentralizedDB with one-hot keys and fixed-length values\<close>

text \<open>
  \<^verbatim>\<open>one_hot\<close>: \<^verbatim>\<open>vect[index] = 1\<close> raises \<^verbatim>\<open>IndexError\<close> beyond the end of the
  vector.
\<close>

definition one_hot :: "nat \<Rightarrow> nat \<Rightarrow> tensor result" where
  "one_hot index len =
     (if index < len then Inr ((replicate len 0)[index := 1]) else Inl IndexError)"

text \<open>
  The first lines of \<^verbatim>\<open>string2one_hot_matrix\<close> and \<^verbatim>\<open>string2values\<close>: truncate to
  \<open>max_len\<close>, lower, pad with \<^verbatim>\<open>.\<close>. A length is a natural number here; Python would
  take a negative \<open>max_len\<close> as a slice bound from the end, which the model leaves out.
\<close>

definition truncate_pad :: "string \<Rightarrow> nat \<Rightarrow> string" where
  "truncate_pad str_input max_len =
     (let s = lower (take max_len str_input) in
      if length s < max_len then s @ replicate (max_len - length s) (CHR ''.'') else s)"

text \<open>
  \<^verbatim>\<open>len(int2char)\<close> is the number of keys of the table, one for every position of the
  alphabet. \<^verbatim>\<open>sy.cat\<close> refuses an empty list of rows.
\<close>

definition string2one_hot_matrix :: "string \<Rightarrow> nat \<Rightarrow> matrix result" where
  "string2one_hot_matrix str_input max_len =
     (case traverse (\<lambda>char. case char2int_s7 char of
                               None \<Rightarrow> Inl KeyError
                             | Some i \<Rightarrow> one_hot i (length alphabet_s7))
             (truncate_pad str_input max_len) of
        Inl e \<Rightarrow> Inl e
      | Inr [] \<Rightarrow> Inl TorchError
      | Inr char_vectors \<Rightarrow> Inr char_vectors)"

definition string2values_s7 :: "string \<Rightarrow> nat \<Rightarrow> tensor result" where
  "string2values_s7 str_input max_len =
     traverse (\<lambda>char. case char2int_s7 char of None \<Rightarrow> Inl KeyError | Some i \<Rightarrow> Inr (int i))
       (truncate_pad str_input max_len)"

record onehot_db =
  max_key_len :: nat
  max_value_len :: nat
  owners :: "string list"
  db_keys :: "matrix list"
  db_values :: "tensor list"

definition DecentralizedDB_s7 :: "string list \<Rightarrow> nat \<Rightarrow> nat \<Rightarrow> onehot_db" where
  "DecentralizedDB_s7 os mkl mvl =
     \<lparr>max_key_len = mkl, max_value_len = mvl, owners = os, db_keys = [], db_values = []\<rparr>"

definition add_entry_s7 :: "onehot_db \<Rightarrow> string \<Rightarrow> string \<Rightarrow> onehot_db result" where
  "add_entry_s7 db string_key string_value =
     (case string2one_hot_matrix string_key (max_key_len db) of
        Inl e \<Rightarrow> Inl e
      | Inr key \<Rightarrow>
          (case string2values_s7 string_value (max_value_len db) of
             Inl e \<Rightarrow> Inl e
           | Inr v \<Rightarrow> Inr (db\<lparr>db_keys := db_keys db @ [key], db_values := db_values db @ [v]\<rparr>)))"

text \<open>
  \<^verbatim>\<open>key * query\<close> on two matrices of one shape, and \<^verbatim>\<open>.sum(1)\<close>, the sums of the
  rows. Every matrix of a store and every query matrix has the shape that
  \<open>max_key_len\<close> and the alphabet give, so no other pair of shapes is combined.
\<close>

definition matrix_mul :: "matrix \<Rightarrow> matrix \<Rightarrow> matrix result" where
  "matrix_mul a b =
     (if map length a = map length b then Inr (map2 (map2 (*)) a b) else Inl TorchError)"

definition row_sums :: "matrix \<Rightarrow> tensor" where
  "row_sums m = map sum_list m"

text \<open>
  The body of the loop over the keys:
  \<^verbatim>\<open>vect = (key * query).sum(1); x = vect[0]; for i in range(vect.get_shape()[0]): x = x * vect[i]\<close>.
  The loop starts at 0, so \<^verbatim>\<open>vect[0]\<close> is a factor twice.
\<close>

definition key_match_s7 :: "matrix \<Rightarrow> matrix \<Rightarrow> int result" where
  "key_match_s7 query key =
     (case matrix_mul key query of
        Inl e \<Rightarrow> Inl e
      | Inr p \<Rightarrow>
          (let vect = row_sums p in
           if vect = [] then Inl IndexError
           else Inr (fold (\<lambda>i x. x * vect ! i) [0..<length vect] (vect ! 0))))"

definition final_value_s7 :: "onehot_db \<Rightarrow> string \<Rightarrow> tensor result" where
  "final_value_s7 db query_str =
     (case string2one_hot_matrix query_str (max_key_len db) of
        Inl e \<Rightarrow> Inl e
      | Inr query \<Rightarrow>
          (case traverse (key_match_s7 query) (db_keys db) of
             Inl e \<Rightarrow> Inl e
           | Inr key_match \<Rightarrow>
               (case value_match_of key_match (db_values db) of
                  Inl e \<Rightarrow> Inl e
                | Inr value_match \<Rightarrow> sum_values value_match)))"

text \<open>\<^verbatim>\<open>result.replace(".", "")\<close> removes every sentinel from the decoded string.\<close>

definition query_s7 :: "onehot_db \<Rightarrow> string \<Rightarrow> string result" where
  "query_s7 db query_str =
     (case final_value_s7 db query_str of
        Inl e \<Rightarrow> Inl e
      | Inr final_value \<Rightarrow>
          Inr (filter (\<lambda>c. c \<noteq> CHR ''.'') (values2string_s6 int2char_s7 final_value)))"

section \<open>Sessions, and the words of the specification\<close>

text \<open>
  A session with the store of Section 7 is a list of calls. \<^verbatim>\<open>add_entry\<close> that raises
  leaves the store as it was; \<^verbatim>\<open>query\<close> assigns to no attribute of the store and
  updates no tensor in place (\<^verbatim>\<open>x = x * vect[i]\<close> and
  \<^verbatim>\<open>final_value = final_value + v\<close> bind new tensors), so the state after it is the
  state before it.
\<close>

datatype db_op = Add_entry string string | Query string

datatype outcome = Done | Returned string | Raised py_error

fun step_s7 :: "onehot_db \<Rightarrow> db_op \<Rightarrow> onehot_db \<times> outcome" where
  "step_s7 db (Add_entry k v) =
     (case add_entry_s7 db k v of Inl e \<Rightarrow> (db, Raised e) | Inr db' \<Rightarrow> (db', Done))"
| "step_s7 db (Query q) =
     (db, case query_s7 db q of Inl e \<Rightarrow> Raised e | Inr s \<Rightarrow> Returned s)"

fun run_s7 :: "onehot_db \<Rightarrow> db_op list \<Rightarrow> onehot_db" where
  "run_s7 db [] = db"
| "run_s7 db (c # cs) = run_s7 (fst (step_s7 db c)) cs"

text \<open>
  The stores that \<^verbatim>\<open>add_entry\<close> builds from a list of key-value pairs, when every
  call returns.
\<close>

fun add_entries_s5 ::
  "(string \<Rightarrow> int) \<Rightarrow> modulus \<Rightarrow> tensor_db \<Rightarrow> (string \<times> string) list \<Rightarrow> tensor_db result" where
  "add_entries_s5 hash fld db [] = Inr db"
| "add_entries_s5 hash fld db ((k, v) # es) =
     (case add_entry_s5 hash fld db k v of
        (Some e, _) \<Rightarrow> Inl e
      | (None, db') \<Rightarrow> add_entries_s5 hash fld db' es)"

fun add_entries_s6 ::
  "(string \<Rightarrow> int) \<Rightarrow> modulus \<Rightarrow> hashed_db \<Rightarrow> (string \<times> string) list \<Rightarrow> hashed_db result" where
  "add_entries_s6 hash fld db [] = Inr db"
| "add_entries_s6 hash fld db ((k, v) # es) =
     (case add_entry_s6 hash fld db k v of
        Inl e \<Rightarrow> Inl e
      | Inr db' \<Rightarrow> add_entries_s6 hash fld db' es)"

fun add_entries_s7 :: "onehot_db \<Rightarrow> (string \<times> string) list \<Rightarrow> onehot_db result" where
  "add_entries_s7 db [] = Inr db"
| "add_entries_s7 db ((k, v) # es) =
     (case add_entry_s7 db k v of Inl e \<Rightarrow> Inl e | Inr db' \<Rightarrow> add_entries_s7 db' es)"

text \<open>
  The specification's \<^verbatim>\<open>pad_or_truncate(s, max_value_len)\<close>, in its words: the value
  truncated to the fixed width, or padded up to it with the pad symbol.
\<close>

definition pad_or_truncate :: "string \<Rightarrow> nat \<Rightarrow> string" where
  "pad_or_truncate s n = take n s @ replicate (n - length s) (CHR ''.'')"

text \<open>
  The code of a character of the alphabet of Section 7, for stating what
  \<^verbatim>\<open>string2values\<close> returns (it raises for any other character, to which this
  gives \<open>- 1\<close>).
\<close>

definition code_s7 :: "char \<Rightarrow> int" where
  "code_s7 c = (case char2int_s7 c of Some i \<Rightarrow> int i | None \<Rightarrow> - 1)"

text \<open>The same for the alphabet of Sections 5 and 6.\<close>

definition code_s5 :: "char \<Rightarrow> int" where
  "code_s5 c = (case char2int_s5 c of Some i \<Rightarrow> int i | None \<Rightarrow> - 1)"

text \<open>The row of the key matrix that encodes a character of the alphabet of Section 7.\<close>

definition one_hot_row :: "char \<Rightarrow> tensor" where
  "one_hot_row c = (replicate (length alphabet_s7) 0)[nat (code_s7 c) := 1]"

text \<open>
  The elementwise sum of a list of tensors of length \<open>L\<close>, in the words of the
  specification: position \<open>p\<close> of the sum is the sum of the positions \<open>p\<close>.
\<close>

definition elementwise_sum :: "nat \<Rightarrow> tensor list \<Rightarrow> tensor" where
  "elementwise_sum L vs = map (\<lambda>p. sum_list (map (\<lambda>v. v ! p) vs)) [0..<L]"

text \<open>
  The values of the records whose key encoding is \<open>q\<close>, in the order of the store.
\<close>

definition matching_values :: "'k \<Rightarrow> 'k list \<Rightarrow> tensor list \<Rightarrow> tensor list" where
  "matching_values q ks vs = map snd (filter (\<lambda>(k, v). k = q) (zip ks vs))"

text \<open>
  For the examples: a hash function from strings to integers in the place of Python's,
  and a modulus in the place of the library's field.
\<close>

definition example_hash :: "string \<Rightarrow> int" where
  "example_hash s = fold (\<lambda>c a. 31 * a + int (of_char c)) s 7"

lift_definition example_field :: modulus is 2147483647
  by simp

text \<open>
  The entries of the notebook's stores, the owners, and the states of the three stores
  after these entries (the one of Section 7 with \<open>max_key_len = 3\<close> and
  \<open>max_value_len = 16\<close>).
\<close>

definition example_entries :: "(string \<times> string) list" where
  "example_entries =
     [(''Bob'', ''(123) 456-7890''), (''Bill'', ''(234) 567-8901''), (''Sue'', ''(345) 678-9012'')]"

definition example_owners :: "string list" where
  "example_owners = [''bob'', ''alice'', ''bill'']"

definition example_db_s7 :: onehot_db where
  "example_db_s7 =
     \<lparr>max_key_len = 3, max_value_len = 16, owners = example_owners,
      db_keys = map (map one_hot_row) [''bob'', ''bil'', ''sue''],
      db_values = map (map code_s7) [''(123) 456-7890..'', ''(234) 567-8901..'', ''(345) 678-9012..'']\<rparr>"

definition example_db_s6 :: hashed_db where
  "example_db_s6 =
     \<lparr>hdb_owners = example_owners,
      hdb_keys = map (string2key_s6 example_hash example_field) [''Bob'', ''Bill'', ''Sue''],
      hdb_values = map (map code_s5) [''(123) 456-7890'', ''(234) 567-8901'', ''(345) 678-9012'']\<rparr>"

definition example_db_s5 :: tensor_db where
  "example_db_s5 =
     \<lparr>tdb_keys = map (string2key_s5 example_hash example_field) [''Bob'', ''Bill'', ''Sue''],
      tdb_values = map (map code_s5) [''(123) 456-7890'', ''(234) 567-8901'', ''(345) 678-9012'']\<rparr>"

text \<open>
  A reconstruction that fails in the first \<open>m\<close> passes, where every element comes out
  as \<open>- 1\<close>, a code outside the table, and is exact from pass \<open>m\<close> on.
\<close>

definition noisy_gets :: "nat \<Rightarrow> nat \<Rightarrow> tensor \<Rightarrow> tensor" where
  "noisy_gets m n t = (if n < m then map (\<lambda>x. - 1) t else t)"

section \<open>Lemmas about loops and code tables\<close>

lemma traverse_map:
  "(\<And>x. x \<in> set xs \<Longrightarrow> f x = Inr (g x)) \<Longrightarrow> traverse f xs = Inr (map g xs)"
  by (induction xs) auto

lemma fold_upd_map_of:
  "fold (\<lambda>(k, v) m. m(k \<mapsto> v)) ps m = m ++ map_of (rev ps)"
  by (induction ps arbitrary: m) (auto simp: map_add_upd_left fun_eq_iff map_add_def split: option.splits)

lemma fold_swap_upd:
  "fold (\<lambda>(i, c) m. m(f i c \<mapsto> g i c)) ps m = fold (\<lambda>(k, v) m. m(k \<mapsto> v)) (map (\<lambda>(i, c). (f i c, g i c)) ps) m"
  by (induction ps arbitrary: m) auto

lemma char2int_of_map_of:
  "char2int_of A = map_of (rev (map (\<lambda>(i, c). (c, i)) (enumerate 0 A)))"
  unfolding char2int_of_def
  using fold_swap_upd[of "\<lambda>i c. c" "\<lambda>i c. i" "enumerate 0 A" Map.empty]
  by (simp add: fold_upd_map_of)

lemma int2char_of_map_of:
  "int2char_of A = map_of (rev (map (\<lambda>(i, c). (int i, c)) (enumerate 0 A)))"
  unfolding int2char_of_def
  using fold_swap_upd[of "\<lambda>i c. int i" "\<lambda>i c. c" "enumerate 0 A" Map.empty]
  by (simp add: fold_upd_map_of)

lemma int2char_of_Some:
  "int2char_of A v = Some c \<longleftrightarrow> 0 \<le> v \<and> v < int (length A) \<and> A ! nat v = c"
proof -
  let ?ps = "rev (map (\<lambda>(i, c). (int i, c)) (enumerate 0 A))"
  have d: "distinct (map fst ?ps)"
    by (auto simp: distinct_rev rev_map[symmetric] comp_def case_prod_unfold distinct_map inj_on_def
          in_set_enumerate_eq simp del: rev_map)
  have "int2char_of A v = Some c \<longleftrightarrow> (v, c) \<in> set ?ps"
    using d by (simp add: int2char_of_map_of del: set_rev rev_map)
  also have "\<dots> \<longleftrightarrow> (\<exists>i. v = int i \<and> (i, c) \<in> set (enumerate 0 A))"
    by auto
  also have "\<dots> \<longleftrightarrow> (\<exists>i. v = int i \<and> i < length A \<and> A ! i = c)"
    by (auto simp: in_set_enumerate_eq)
  also have "\<dots> \<longleftrightarrow> 0 \<le> v \<and> v < int (length A) \<and> A ! nat v = c"
    by (metis nat_int nat_less_iff of_nat_0_le_iff int_nat_eq)
  finally show ?thesis .
qed

lemma int2char_of_eq:
  "int2char_of A v = (if 0 \<le> v \<and> v < int (length A) then Some (A ! nat v) else None)"
  using int2char_of_Some[of A v] by (cases "int2char_of A v") auto

lemma char2int_of_Some:
  assumes "distinct A"
  shows "char2int_of A c = Some i \<longleftrightarrow> i < length A \<and> A ! i = c"
proof -
  let ?ps = "rev (map (\<lambda>(i, c). (c, i)) (enumerate 0 A))"
  have "map fst ?ps = rev A"
    by (simp add: rev_map[symmetric] comp_def case_prod_unfold del: rev_map)
  then have d: "distinct (map fst ?ps)" using assms by simp
  have "char2int_of A c = Some i \<longleftrightarrow> (c, i) \<in> set ?ps"
    using d by (simp add: char2int_of_map_of del: set_rev rev_map)
  also have "\<dots> \<longleftrightarrow> (i, c) \<in> set (enumerate 0 A)"
    by auto
  also have "\<dots> \<longleftrightarrow> i < length A \<and> A ! i = c"
    by (auto simp: in_set_enumerate_eq)
  finally show ?thesis .
qed

lemma char2int_of_None:
  "char2int_of A c = None \<longleftrightarrow> c \<notin> set A"
proof -
  have "map fst (rev (map (\<lambda>(i, c). (c, i)) (enumerate 0 A))) = rev A"
    by (simp add: rev_map[symmetric] comp_def case_prod_unfold del: rev_map)
  then show ?thesis
    by (simp add: char2int_of_map_of map_of_eq_None_iff del: rev_map set_rev)
       (metis set_rev set_map)
qed

lemma distinct_alphabet_s7: "distinct alphabet_s7"
  by (simp add: alphabet_s7_def ascii_lowercase_def digits_def punctuation_def)

lemma distinct_alphabet_s5: "distinct alphabet_s5"
  by (simp add: alphabet_s5_def ascii_letters_def ascii_lowercase_def ascii_uppercase_def digits_def punctuation_def)

lemma length_alphabet_s7: "length alphabet_s7 = 69"
  by (simp add: alphabet_s7_def ascii_lowercase_def digits_def punctuation_def)

lemma length_alphabet_s5: "length alphabet_s5 = 95"
  by (simp add: alphabet_s5_def ascii_letters_def ascii_lowercase_def ascii_uppercase_def digits_def punctuation_def)

section \<open>Key and value encodings\<close>

lemma mod_shift_eq_iff:
  "((a + c) mod f = (b + c) mod f) \<longleftrightarrow> (a mod f = b mod f)" for a b c f :: int
proof
  assume "(a + c) mod f = (b + c) mod f"
  then have "((a + c) - c) mod f = ((b + c) - c) mod f"
    by (rule mod_diff_cong) simp
  then show "a mod f = b mod f" by simp
next
  assume "a mod f = b mod f"
  then show "(a + c) mod f = (b + c) mod f"
    by (rule mod_add_cong) simp
qed

text \<open>
  Claim C7 (hashed-scalar mode: the key encoding is the single integer hash(k) mod FIELD),
  as amended. \<^verbatim>\<open>string2key\<close> of Section 5 is \<open>hash k mod fld\<close>. The one of Section 6,
  which the \<^verbatim>\<open>DecentralizedDB\<close> with hashed keys uses, is \<open>(hash k + 1234) mod fld\<close>:
  the encoding of Section 5 shifted by 1234 in the ring. Both are at least 0 and less
  than the field. Two keys have one encoding in Section 6 exactly when they have one
  encoding in Section 5.
\<close>

theorem string2key_hash_mod_field:
  "string2key_s5 hash fld k = hash k mod Rep_modulus fld \<and>
   string2key_s6 hash fld k = (hash k + 1234) mod Rep_modulus fld \<and>
   string2key_s6 hash fld k = (string2key_s5 hash fld k + 1234) mod Rep_modulus fld \<and>
   0 \<le> string2key_s5 hash fld k \<and> string2key_s5 hash fld k < Rep_modulus fld \<and>
   0 \<le> string2key_s6 hash fld k \<and> string2key_s6 hash fld k < Rep_modulus fld \<and>
   (string2key_s6 hash fld k = string2key_s6 hash fld k' \<longleftrightarrow>
      string2key_s5 hash fld k = string2key_s5 hash fld k')"
proof -
  have "0 < Rep_modulus fld" using Rep_modulus[of fld] by simp
  then show ?thesis
    unfolding string2key_s5_def string2key_s6_def
    by (simp add: mod_shift_eq_iff mod_add_left_eq)
qed

text \<open>
  Claim C7 as stated fails for \<^verbatim>\<open>string2key\<close> of Section 6: with the example hash
  and field, the key \<^verbatim>\<open>Bob\<close> is encoded as 276736, and its hash modulo the field is
  275502.
\<close>

theorem string2key_s6_counterexample:
  "string2key_s6 example_hash example_field ''Bob'' = 276736 \<and>
   example_hash ''Bob'' mod Rep_modulus example_field = 275502 \<and>
   string2key_s6 example_hash example_field ''Bob'' \<noteq>
     example_hash ''Bob'' mod Rep_modulus example_field"
  by (simp add: string2key_s6_def example_hash_def example_field.rep_eq)

lemma value_match_of_Nil: "value_match_of km [] = Inr []"
  by (simp add: value_match_of_def)

text \<open>
  Claim C9: on a store with no record, \<^verbatim>\<open>query\<close> raises instead of returning a
  not-found result. In \<^verbatim>\<open>TensorDB\<close> the exception is the \<^verbatim>\<open>IndexError\<close> of
  \<^verbatim>\<open>value_match[0]\<close>. In the \<^verbatim>\<open>DecentralizedDB\<close> of Section 7 it is the same
  \<^verbatim>\<open>IndexError\<close> whenever the query string can be encoded, and the exception of the
  encoding otherwise. The \<^verbatim>\<open>DecentralizedDB\<close> of Section 6 raises the same
  \<^verbatim>\<open>IndexError\<close> in its first pass.
\<close>

theorem query_empty_store_IndexError:
  "query_s5 hash fld \<lparr>tdb_keys = [], tdb_values = []\<rparr> q = Inl IndexError \<and>
   query_s7 \<lparr>max_key_len = mkl, max_value_len = mvl, owners = os, db_keys = [], db_values = []\<rparr> q =
     (case string2one_hot_matrix q mkl of Inl e \<Rightarrow> Inl e | Inr query \<Rightarrow> Inl IndexError) \<and>
   query_s6 set_list gets limit hash fld \<lparr>hdb_owners = os, hdb_keys = [], hdb_values = []\<rparr> q =
     Inl IndexError"
proof -
  have "query_s6 set_list gets limit hash fld \<lparr>hdb_owners = os, hdb_keys = [], hdb_values = []\<rparr> q =
     Inl IndexError"
    unfolding query_s6_def
    by (cases limit)
       (simp_all add: pass_s6_def attempt_s6_def final_value_s6_def value_match_of_Nil
          sum_values_def)
  then show ?thesis
    by (simp add: query_s5_def final_value_s5_def query_s7_def final_value_s7_def
        value_match_of_Nil sum_values_def split: sum.splits)
qed

lemma lower_take: "lower (take n s) = take n (lower s)"
  by (simp add: lower_def take_map)

lemma length_lower: "length (lower s) = length s"
  by (simp add: lower_def)

lemma truncate_pad_eq: "truncate_pad s n = pad_or_truncate (lower s) n"
  by (auto simp: truncate_pad_def pad_or_truncate_def Let_def lower_take length_lower)

lemma length_pad_or_truncate: "length (pad_or_truncate s n) = n"
  by (auto simp: pad_or_truncate_def)

lemma dot_in_alphabet_s7: "CHR ''.'' \<in> set alphabet_s7"
  by (simp add: alphabet_s7_def punctuation_def)

lemma set_pad_or_truncate:
  "set (take n s) \<subseteq> A \<Longrightarrow> CHR ''.'' \<in> A \<Longrightarrow> set (pad_or_truncate s n) \<subseteq> A"
  by (auto simp: pad_or_truncate_def)

lemma set_take_subset_pad: "set (take n s) \<subseteq> set (pad_or_truncate s n)"
  by (auto simp: pad_or_truncate_def)

lemma char2int_s7_in:
  assumes "c \<in> set alphabet_s7"
  shows "\<exists>i. char2int_s7 c = Some i \<and> i < length alphabet_s7 \<and> alphabet_s7 ! i = c"
proof -
  from assms obtain i where "char2int_s7 c = Some i"
    using char2int_of_None[of alphabet_s7 c] by (auto simp: char2int_s7_def)
  then show ?thesis
    using char2int_of_Some[OF distinct_alphabet_s7, of c i] by (simp add: char2int_s7_def)
qed

lemma char2int_s7_notin: "c \<notin> set alphabet_s7 \<Longrightarrow> char2int_s7 c = None"
  using char2int_of_None[of alphabet_s7 c] by (simp add: char2int_s7_def)

lemma int2char_char2int_s7:
  "char2int_s7 c = Some i \<Longrightarrow> int2char_s7 (int i) = Some c"
  using char2int_of_Some[OF distinct_alphabet_s7, of c i]
  by (simp add: char2int_s7_def int2char_s7_def int2char_of_eq)

lemma string2values_s7_ok:
  assumes "set (lower (take n s)) \<subseteq> set alphabet_s7"
  shows "string2values_s7 s n = Inr (map code_s7 (pad_or_truncate (lower s) n))"
proof -
  have sub: "set (pad_or_truncate (lower s) n) \<subseteq> set alphabet_s7"
    using assms dot_in_alphabet_s7 by (intro set_pad_or_truncate) (simp_all add: lower_take)
  show ?thesis
    unfolding string2values_s7_def truncate_pad_eq
  proof (rule traverse_map)
    fix c assume "c \<in> set (pad_or_truncate (lower s) n)"
    with sub have "c \<in> set alphabet_s7" by auto
    then obtain i where "char2int_s7 c = Some i" using char2int_s7_in by blast
    then show "(case char2int_s7 c of None \<Rightarrow> Inl KeyError | Some i \<Rightarrow> Inr (int i)) = Inr (code_s7 c)"
      by (simp add: code_s7_def)
  qed
qed

lemma traverse_KeyError:
  assumes "\<And>x. f x = Inl KeyError \<or> (\<exists>y. f x = Inr y)" and "x \<in> set xs" and "f x = Inl KeyError"
  shows "traverse f xs = Inl KeyError"
  using assms(2,3)
proof (induction xs)
  case Nil
  then show ?case by simp
next
  case (Cons a xs)
  show ?case
  proof (cases "f a")
    case (Inl e)
    with assms(1)[of a] show ?thesis by auto
  next
    case (Inr y)
    with Cons have "traverse f xs = Inl KeyError" by auto
    with Inr show ?thesis by simp
  qed
qed

lemma string2values_s7_KeyError:
  assumes "\<not> set (lower (take n s)) \<subseteq> set alphabet_s7"
  shows "string2values_s7 s n = Inl KeyError"
proof -
  from assms obtain c where c: "c \<in> set (lower (take n s))" "c \<notin> set alphabet_s7" by auto
  then have "c \<in> set (pad_or_truncate (lower s) n)"
    using set_take_subset_pad[of n "lower s"] by (auto simp: lower_take)
  moreover have "(case char2int_s7 c of None \<Rightarrow> Inl KeyError | Some i \<Rightarrow> Inr (int i)) = Inl KeyError"
    using c(2) by (simp add: char2int_s7_notin)
  ultimately show ?thesis
    unfolding string2values_s7_def truncate_pad_eq
    by (intro traverse_KeyError[where x = c]) (auto split: option.splits)
qed

lemma values2string_code_s7:
  assumes "set xs \<subseteq> set alphabet_s7"
  shows "values2string_s6 int2char_s7 (map code_s7 xs) = xs"
proof -
  have "(case int2char_s7 (code_s7 c) of Some c \<Rightarrow> c | None \<Rightarrow> CHR ''.'') = c" if "c \<in> set xs" for c
  proof -
    from that assms obtain i where "char2int_s7 c = Some i" using char2int_s7_in by blast
    then show ?thesis using int2char_char2int_s7[of c i] by (simp add: code_s7_def)
  qed
  then show ?thesis
    by (simp add: values2string_s6_def map_idI)
qed

text \<open>
  Claim C6 (decoding the value encoding of \<open>s\<close> gives \<open>s\<close> padded or truncated to
  \<open>max_value_len\<close>), as amended: \<^verbatim>\<open>string2values\<close> of Section 7 lowers the string,
  so decoding gives the lowered string padded or truncated; and it returns exactly when
  every character of the lowered, truncated string is in the alphabet, raising
  \<^verbatim>\<open>KeyError\<close> otherwise.
\<close>

theorem values_round_trip_lowered:
  "(case string2values_s7 s n of
      Inr codes \<Rightarrow> set (lower (take n s)) \<subseteq> set alphabet_s7 \<and> length codes = n \<and>
                   values2string_s6 int2char_s7 codes = pad_or_truncate (lower s) n
    | Inl e \<Rightarrow> e = KeyError \<and> \<not> set (lower (take n s)) \<subseteq> set alphabet_s7)"
proof (cases "set (lower (take n s)) \<subseteq> set alphabet_s7")
  case True
  have "set (pad_or_truncate (lower s) n) \<subseteq> set alphabet_s7"
    using True dot_in_alphabet_s7 by (intro set_pad_or_truncate) (simp_all add: lower_take)
  then show ?thesis
    using True by (simp add: string2values_s7_ok values2string_code_s7 length_pad_or_truncate)
next
  case False
  then show ?thesis by (simp add: string2values_s7_KeyError)
qed

theorem values_round_trip_lowered_witness:
  "string2values_s7 ''Bob likes 3.14!'' 8 = Inr [2, 15, 2, 0, 12, 9, 11, 5] \<and>
   set (lower (take 8 ''Bob likes 3.14!'')) \<subseteq> set alphabet_s7 \<and>
   values2string_s6 int2char_s7 [2, 15, 2, 0, 12, 9, 11, 5] = pad_or_truncate (lower ''Bob likes 3.14!'') 8 \<and>
   pad_or_truncate (lower ''Bob likes 3.14!'') 8 = ''bob like'' \<and>
   string2values_s7 (''na'' @ [CHR 0xEF] @ ''ve'') 8 = Inl KeyError \<and>
   \<not> set (lower (take 8 (''na'' @ [CHR 0xEF] @ ''ve''))) \<subseteq> set alphabet_s7"
proof -
  have e: "string2values_s7 ''Bob likes 3.14!'' 8 = Inr [2, 15, 2, 0, 12, 9, 11, 5]"
    "string2values_s7 (''na'' @ [CHR 0xEF] @ ''ve'') 8 = Inl KeyError"
    "pad_or_truncate (lower ''Bob likes 3.14!'') 8 = ''bob like''"
    by code_simp+
  show ?thesis
    using values_round_trip_lowered[where s = "''Bob likes 3.14!''" and n = 8]
      values_round_trip_lowered[where s = "''na'' @ [CHR 0xEF] @ ''ve''" and n = 8]
    unfolding e by simp
qed

text \<open>
  Claim C6 as stated fails at the value \<^verbatim>\<open>Bob\<close> with \<open>max_value_len = 5\<close>: the
  decoded encoding is \<^verbatim>\<open>bob..\<close>, the padded string is \<^verbatim>\<open>Bob..\<close>.
\<close>

theorem values_round_trip_counterexample:
  "string2values_s7 ''Bob'' 5 = Inr [2, 15, 2, 50, 50] \<and>
   values2string_s6 int2char_s7 [2, 15, 2, 50, 50] = ''bob..'' \<and>
   pad_or_truncate ''Bob'' 5 = ''Bob..''"
  by code_simp

section \<open>One-hot keys\<close>

lemma code_s7_in:
  assumes "c \<in> set alphabet_s7"
  shows "char2int_s7 c = Some (nat (code_s7 c)) \<and> nat (code_s7 c) < length alphabet_s7 \<and>
         alphabet_s7 ! nat (code_s7 c) = c"
  using char2int_s7_in[OF assms] by (auto simp: code_s7_def)

lemma one_hot_row_inj:
  assumes "c \<in> set alphabet_s7" "d \<in> set alphabet_s7" "one_hot_row c = one_hot_row d"
  shows "c = d"
proof -
  let ?n = "length alphabet_s7"
  let ?i = "nat (code_s7 c)" and ?j = "nat (code_s7 d)"
  have i: "?i < ?n" and j: "?j < ?n"
    using code_s7_in[OF assms(1)] code_s7_in[OF assms(2)] by auto
  have "one_hot_row c ! ?i = 1" using i by (simp add: one_hot_row_def)
  then have "one_hot_row d ! ?i = 1" using assms(3) by simp
  then have "?i = ?j" using i j by (auto simp: one_hot_row_def nth_list_update split: if_splits)
  then show ?thesis
    using code_s7_in[OF assms(1)] code_s7_in[OF assms(2)] by metis
qed

lemma one_hot_char:
  "(case char2int_s7 c of None \<Rightarrow> Inl KeyError | Some i \<Rightarrow> one_hot i (length alphabet_s7)) =
     (if c \<in> set alphabet_s7 then Inr (one_hot_row c) else Inl KeyError)"
proof (cases "c \<in> set alphabet_s7")
  case True
  then show ?thesis using code_s7_in[OF True] by (simp add: one_hot_def one_hot_row_def)
next
  case False
  then show ?thesis by (simp add: char2int_s7_notin)
qed

lemma string2one_hot_matrix_eq:
  "string2one_hot_matrix k n =
     (if \<not> set (lower (take n k)) \<subseteq> set alphabet_s7 then Inl KeyError
      else if n = 0 then Inl TorchError
      else Inr (map one_hot_row (pad_or_truncate (lower k) n)))"
proof (cases "set (lower (take n k)) \<subseteq> set alphabet_s7")
  case True
  have sub: "set (pad_or_truncate (lower k) n) \<subseteq> set alphabet_s7"
    using True dot_in_alphabet_s7 by (intro set_pad_or_truncate) (simp_all add: lower_take)
  have t: "traverse (\<lambda>char. case char2int_s7 char of None \<Rightarrow> Inl KeyError
                | Some i \<Rightarrow> one_hot i (length alphabet_s7)) (pad_or_truncate (lower k) n)
        = Inr (map one_hot_row (pad_or_truncate (lower k) n))"
    using sub by (intro traverse_map) (auto simp: one_hot_char)
  have e: "map one_hot_row (pad_or_truncate (lower k) n) = [] \<longleftrightarrow> n = 0"
    using length_pad_or_truncate[of "lower k" n] by (metis length_0_conv length_map)
  show ?thesis
  proof (cases "map one_hot_row (pad_or_truncate (lower k) n)")
    case Nil
    with e True t show ?thesis
      by (simp add: string2one_hot_matrix_def truncate_pad_eq)
  next
    case (Cons r rs)
    with e have "n \<noteq> 0" by auto
    with Cons True t show ?thesis
      by (simp add: string2one_hot_matrix_def truncate_pad_eq)
  qed
next
  case False
  then obtain c where c: "c \<in> set (lower (take n k))" "c \<notin> set alphabet_s7" by auto
  then have "c \<in> set (pad_or_truncate (lower k) n)"
    using set_take_subset_pad[of n "lower k"] by (auto simp: lower_take)
  then have "traverse (\<lambda>char. case char2int_s7 char of None \<Rightarrow> Inl KeyError
                | Some i \<Rightarrow> one_hot i (length alphabet_s7)) (pad_or_truncate (lower k) n)
        = Inl KeyError"
    using c(2) by (intro traverse_KeyError[where x = c]) (auto simp: one_hot_char)
  then show ?thesis
    using False by (simp add: string2one_hot_matrix_def truncate_pad_eq)
qed

text \<open>
  Claim C8 (one-hot mode: the key encoding is a \<open>maxKeyLen\<close> by \<open>alphabetSize\<close>
  matrix of one-hot rows; longer keys are truncated, shorter ones padded on the right),
  as amended. For a positive \<open>max_key_len\<close> and a key whose first \<open>max_key_len\<close>
  characters, lowered, are all in the alphabet, the encoding has \<open>max_key_len\<close> rows of
  the length of the alphabet, and row \<open>p\<close> is 1 at the position of the \<open>p\<close>-th
  character of the lowered key, truncated or padded with \<^verbatim>\<open>.\<close>, and 0 elsewhere.
  A key with any other character raises \<^verbatim>\<open>KeyError\<close>, and \<open>max_key_len = 0\<close> raises in
  \<^verbatim>\<open>sy.cat\<close>.
\<close>

theorem one_hot_matrix_shape:
  "(0 < n \<and> set (lower (take n k)) \<subseteq> set alphabet_s7 \<longrightarrow>
      (\<exists>m. string2one_hot_matrix k n = Inr m \<and> length m = n \<and>
         (\<forall>p<n. length (m ! p) = length alphabet_s7 \<and>
            (\<exists>j<length alphabet_s7. alphabet_s7 ! j = pad_or_truncate (lower k) n ! p \<and>
               m ! p = (replicate (length alphabet_s7) 0)[j := 1])))) \<and>
   (\<not> set (lower (take n k)) \<subseteq> set alphabet_s7 \<longrightarrow> string2one_hot_matrix k n = Inl KeyError) \<and>
   (n = 0 \<longrightarrow> string2one_hot_matrix k n = Inl TorchError) \<and>
   pad_or_truncate (lower k) n =
     (if n \<le> length k then lower (take n k) else lower k @ replicate (n - length k) (CHR ''.''))"
proof (intro conjI impI)
  assume a: "0 < n \<and> set (lower (take n k)) \<subseteq> set alphabet_s7"
  let ?s = "pad_or_truncate (lower k) n"
  have sub: "set ?s \<subseteq> set alphabet_s7"
    using a dot_in_alphabet_s7 by (intro set_pad_or_truncate) (simp_all add: lower_take)
  have eq: "string2one_hot_matrix k n = Inr (map one_hot_row ?s)"
    using a by (simp add: string2one_hot_matrix_eq)
  have rows: "length (map one_hot_row ?s ! p) = length alphabet_s7 \<and>
      (\<exists>j<length alphabet_s7. alphabet_s7 ! j = ?s ! p \<and>
         map one_hot_row ?s ! p = (replicate (length alphabet_s7) 0)[j := 1])" if "p < n" for p
  proof -
    have "?s ! p \<in> set alphabet_s7"
      using that sub length_pad_or_truncate[of "lower k" n] by (metis nth_mem subsetD)
    from code_s7_in[OF this] that show ?thesis
      by (auto simp: length_pad_or_truncate one_hot_row_def)
  qed
  show "\<exists>m. string2one_hot_matrix k n = Inr m \<and> length m = n \<and>
         (\<forall>p<n. length (m ! p) = length alphabet_s7 \<and>
            (\<exists>j<length alphabet_s7. alphabet_s7 ! j = ?s ! p \<and>
               m ! p = (replicate (length alphabet_s7) 0)[j := 1]))"
    using eq rows by (intro exI[of _ "map one_hot_row ?s"]) (simp add: length_pad_or_truncate)
next
  assume "\<not> set (lower (take n k)) \<subseteq> set alphabet_s7"
  then show "string2one_hot_matrix k n = Inl KeyError" by (simp add: string2one_hot_matrix_eq)
next
  assume "n = 0"
  then show "string2one_hot_matrix k n = Inl TorchError"
    by (simp add: string2one_hot_matrix_eq lower_def)
next
  show "pad_or_truncate (lower k) n =
     (if n \<le> length k then lower (take n k) else lower k @ replicate (n - length k) (CHR ''.''))"
    by (simp add: pad_or_truncate_def lower_take length_lower)
qed

text \<open>
  Claim C8 as stated fails at the key \<^verbatim>\<open>Jos\<close> followed by the code point 233 (e with
  an acute accent), which is not in the alphabet: the encoding raises \<^verbatim>\<open>KeyError\<close>.
\<close>

theorem one_hot_matrix_counterexample:
  "string2one_hot_matrix (''Jos'' @ [CHR 0xE9]) 8 = Inl KeyError"
  by code_simp

theorem one_hot_matrix_shape_witness:
  "((0::nat) < 3 \<and> set (lower (take 3 ''Bobby'')) \<subseteq> set alphabet_s7) \<and>
   (\<exists>m. string2one_hot_matrix ''Bobby'' 3 = Inr m \<and> length m = 3 \<and>
      (\<forall>p<3. length (m ! p) = length alphabet_s7 \<and>
         (\<exists>j<length alphabet_s7. alphabet_s7 ! j = pad_or_truncate (lower ''Bobby'') 3 ! p \<and>
            m ! p = (replicate (length alphabet_s7) 0)[j := 1]))) \<and>
   \<not> set (lower (take 8 (''Jos'' @ [CHR 0xE9]))) \<subseteq> set alphabet_s7 \<and>
   string2one_hot_matrix (''Jos'' @ [CHR 0xE9]) 8 = Inl KeyError \<and>
   string2one_hot_matrix ''Bobby'' 0 = Inl TorchError \<and>
   pad_or_truncate (lower ''Bobby'') 3 = ''bob'' \<and> pad_or_truncate (lower ''Bo'') 3 = ''bo.''"
proof -
  have h1: "(0::nat) < 3 \<and> set (lower (take 3 ''Bobby'')) \<subseteq> set alphabet_s7"
    by code_simp
  have h2: "\<not> set (lower (take 8 (''Jos'' @ [CHR 0xE9]))) \<subseteq> set alphabet_s7"
    by code_simp
  have h3: "pad_or_truncate (lower ''Bobby'') 3 = ''bob'' \<and> pad_or_truncate (lower ''Bo'') 3 = ''bo.''"
    by code_simp
  show ?thesis
    using h1 h2 h3 one_hot_matrix_shape[of 3 "''Bobby''"]
      one_hot_matrix_shape[of 8 "''Jos'' @ [CHR 0xE9]"] one_hot_matrix_shape[of 0 "''Bobby''"]
    by blast
qed

section \<open>Matching one-hot keys\<close>

lemma dot_unit_vector:
  "i < n \<Longrightarrow> length ys = n \<Longrightarrow> sum_list (map2 (*) ((replicate n 0)[i := 1]) ys) = ys ! i"
  for ys :: "int list"
proof (induction n arbitrary: i ys)
  case 0
  then show ?case by simp
next
  case (Suc n)
  then obtain y ys' where ys: "ys = y # ys'" "length ys' = n" by (cases ys) auto
  have z: "sum_list (map2 (*) (replicate n 0) ys') = 0"
    by (induction n arbitrary: ys') (auto simp: zip_Cons1 split: list.splits) 
  show ?case
  proof (cases i)
    case 0
    then show ?thesis using ys z by simp
  next
    case (Suc j)
    then show ?thesis using ys Suc.IH[of j ys'] Suc.prems by simp
  qed
qed

lemma dot_one_hot_row:
  assumes "c \<in> set alphabet_s7" "d \<in> set alphabet_s7"
  shows "sum_list (map2 (*) (one_hot_row c) (one_hot_row d)) = (if c = d then 1 else 0)"
proof -
  let ?n = "length alphabet_s7"
  have i: "nat (code_s7 c) < ?n" and j: "nat (code_s7 d) < ?n"
    using code_s7_in[OF assms(1)] code_s7_in[OF assms(2)] by auto
  have "sum_list (map2 (*) (one_hot_row c) (one_hot_row d)) = one_hot_row d ! nat (code_s7 c)"
    unfolding one_hot_row_def[of c] using i by (intro dot_unit_vector) (simp_all add: one_hot_row_def)
  also have "\<dots> = (if nat (code_s7 c) = nat (code_s7 d) then 1 else 0)"
    using i j by (simp add: one_hot_row_def nth_list_update)
  also have "\<dots> = (if c = d then 1 else 0)"
    using code_s7_in[OF assms(1)] code_s7_in[OF assms(2)] by (metis)
  finally show ?thesis .
qed

lemma length_one_hot_row: "length (one_hot_row c) = length alphabet_s7"
  by (simp add: one_hot_row_def)

lemma matrix_mul_rows:
  "length xs = length ys \<Longrightarrow>
   matrix_mul (map one_hot_row xs) (map one_hot_row ys) =
     Inr (map (\<lambda>(c, d). map2 (*) (one_hot_row c) (one_hot_row d)) (zip xs ys))"
proof -
  assume l: "length xs = length ys"
  have "map length (map one_hot_row xs) = map length (map one_hot_row ys)"
    using l by (simp add: comp_def length_one_hot_row map_replicate_const)
  moreover have "map2 (map2 (*)) (map one_hot_row xs) (map one_hot_row ys) =
      map (\<lambda>(c, d). map2 (*) (one_hot_row c) (one_hot_row d)) (zip xs ys)"
    by (simp add: zip_map_map case_prod_unfold)
  ultimately show ?thesis
    unfolding matrix_mul_def by simp
qed

lemma row_sums_rows:
  assumes "length xs = length ys" "set xs \<subseteq> set alphabet_s7" "set ys \<subseteq> set alphabet_s7"
  shows "row_sums (map (\<lambda>(c, d). map2 (*) (one_hot_row c) (one_hot_row d)) (zip xs ys)) =
         map (\<lambda>(c, d). if c = d then 1 else 0) (zip xs ys)"
  using assms
  by (induction xs ys rule: list_induct2) (auto simp: row_sums_def dot_one_hot_row)

lemma fold_mult_index:
  "n \<le> length v \<Longrightarrow> fold (\<lambda>i x. x * v ! i) [0..<n] a = a * prod_list (take n v)"
  for v :: "int list"
  by (induction n) (auto simp: take_Suc_conv_app_nth)

lemma prod_list_eq_indicator:
  "length xs = length ys \<Longrightarrow>
   prod_list (map (\<lambda>(c, d). if c = d then 1 else 0) (zip xs ys)) = (if xs = ys then 1 else (0::int))"
  by (induction xs ys rule: list_induct2) auto

lemma key_match_s7_rows:
  assumes "length xs = length ys" "xs \<noteq> []" "set xs \<subseteq> set alphabet_s7" "set ys \<subseteq> set alphabet_s7"
  shows "key_match_s7 (map one_hot_row ys) (map one_hot_row xs) = Inr (if xs = ys then 1 else 0)"
proof -
  define P where "P = map (\<lambda>(c, d). map2 (*) (one_hot_row c) (one_hot_row d)) (zip xs ys)"
  define vect where "vect = map (\<lambda>(c, d). if c = d then 1 else (0::int)) (zip xs ys)"
  have mm: "matrix_mul (map one_hot_row xs) (map one_hot_row ys) = Inr P"
    unfolding P_def using assms(1) by (rule matrix_mul_rows)
  have rs: "row_sums P = vect"
    unfolding P_def vect_def using assms(1,3,4) by (rule row_sums_rows)
  have ne: "vect \<noteq> []" unfolding vect_def using assms(1,2) by (cases xs; cases ys) auto
  have p: "prod_list vect = (if xs = ys then 1 else 0)"
    unfolding vect_def using assms(1) by (rule prod_list_eq_indicator)
  have "fold (\<lambda>i x. x * vect ! i) [0..<length vect] (vect ! 0) = vect ! 0 * prod_list vect"
    using fold_mult_index[of "length vect" vect "vect ! 0"] by simp
  also have "\<dots> = (if xs = ys then 1 else 0)"
  proof (cases "xs = ys")
    case True
    then have "vect ! 0 = 1" unfolding vect_def using assms(2) by (cases ys) auto
    with p True show ?thesis by simp
  next
    case False
    with p show ?thesis by simp
  qed
  finally have f: "fold (\<lambda>i x. x * vect ! i) [0..<length vect] (vect ! 0) =
      (if xs = ys then 1 else 0)" .
  show ?thesis
    unfolding key_match_s7_def mm by (simp only: sum.case Let_def rs ne if_False f)
qed

lemma string2one_hot_matrix_Inr:
  assumes "string2one_hot_matrix k n = Inr m"
  shows "0 < n" "set (pad_or_truncate (lower k) n) \<subseteq> set alphabet_s7"
     "m = map one_hot_row (pad_or_truncate (lower k) n)"
proof -
  from assms have a: "set (lower (take n k)) \<subseteq> set alphabet_s7" and n: "n \<noteq> 0"
    and m: "m = map one_hot_row (pad_or_truncate (lower k) n)"
    by (auto simp: string2one_hot_matrix_eq split: if_splits)
  show "0 < n" using n by simp
  show "set (pad_or_truncate (lower k) n) \<subseteq> set alphabet_s7"
    using a dot_in_alphabet_s7 by (intro set_pad_or_truncate) (simp_all add: lower_take)
  show "m = map one_hot_row (pad_or_truncate (lower k) n)" by (rule m)
qed

lemma map_one_hot_row_inj:
  assumes "set xs \<subseteq> set alphabet_s7" "set ys \<subseteq> set alphabet_s7"
    and "map one_hot_row xs = map one_hot_row ys"
  shows "xs = ys"
proof -
  have "inj_on one_hot_row (set xs \<union> set ys)"
    using assms(1,2) by (intro inj_onI one_hot_row_inj) auto
  then show ?thesis using assms(3) by (simp add: inj_on_map_eq_map)
qed

text \<open>
  Claim C5: in one-hot mode, for the matrices \<open>key\<close> and \<open>query\<close> that encode two
  strings, every row sum of \<^verbatim>\<open>key * query\<close> is 1 when the two strings (lowered,
  truncated and padded) have the same character at that position and 0 otherwise, and the
  product that the loop of \<^verbatim>\<open>query\<close> computes is 1 when they agree at every position
  and 0 otherwise. The loop multiplies \<^verbatim>\<open>vect[0]\<close> in twice; as a row sum is 0 or 1,
  the result is the product of the row sums all the same.
\<close>

theorem one_hot_key_match:
  assumes "string2one_hot_matrix k n = Inr key" and "string2one_hot_matrix q n = Inr query"
  shows "\<exists>p. matrix_mul key query = Inr p \<and> length (row_sums p) = n \<and>
           (\<forall>i<n. row_sums p ! i = (if truncate_pad k n ! i = truncate_pad q n ! i then 1 else 0)) \<and>
           key_match_s7 query key = Inr (prod_list (row_sums p)) \<and>
           key_match_s7 query key =
             Inr (if (\<forall>i<n. truncate_pad k n ! i = truncate_pad q n ! i) then 1 else 0) \<and>
           key_match_s7 query key = Inr (if key = query then 1 else 0)"
proof -
  let ?xs = "pad_or_truncate (lower k) n" and ?ys = "pad_or_truncate (lower q) n"
  let ?vect = "map (\<lambda>(c, d). if c = d then 1 else (0::int)) (zip ?xs ?ys)"
  note K = string2one_hot_matrix_Inr[OF assms(1)] and Q = string2one_hot_matrix_Inr[OF assms(2)]
  have len: "length ?xs = length ?ys" by (simp add: length_pad_or_truncate)
  have ne: "?xs \<noteq> []" using K(1) length_pad_or_truncate[of "lower k" n] by auto
  have mm: "matrix_mul key query =
      Inr (map (\<lambda>(c, d). map2 (*) (one_hot_row c) (one_hot_row d)) (zip ?xs ?ys))"
    unfolding K(3) Q(3) using len by (rule matrix_mul_rows)
  have rs: "row_sums (map (\<lambda>(c, d). map2 (*) (one_hot_row c) (one_hot_row d)) (zip ?xs ?ys)) = ?vect"
    using len K(2) Q(2) by (rule row_sums_rows)
  have km: "key_match_s7 query key = Inr (if ?xs = ?ys then 1 else 0)"
    unfolding K(3) Q(3) using len ne K(2) Q(2) by (rule key_match_s7_rows)
  have all: "(\<forall>i<n. ?xs ! i = ?ys ! i) \<longleftrightarrow> ?xs = ?ys"
    using len by (auto simp: list_eq_iff_nth_eq length_pad_or_truncate)
  have kq: "key = query \<longleftrightarrow> ?xs = ?ys"
    unfolding K(3) Q(3) using map_one_hot_row_inj[OF K(2) Q(2)] by auto
  have "length ?vect = n" by (simp add: length_pad_or_truncate)
  moreover have "\<forall>i<n. ?vect ! i = (if ?xs ! i = ?ys ! i then 1 else 0)"
    by (simp add: length_pad_or_truncate)
  moreover have "prod_list ?vect = (if ?xs = ?ys then 1 else 0)"
    using len by (rule prod_list_eq_indicator)
  ultimately show ?thesis
    unfolding truncate_pad_eq using mm rs km all kq by auto
qed

theorem one_hot_key_match_witness:
  "string2one_hot_matrix ''Bob'' 4 = Inr (map one_hot_row ''bob.'') \<and>
   string2one_hot_matrix ''bOb.'' 4 = Inr (map one_hot_row ''bob.'') \<and>
   string2one_hot_matrix ''Bill'' 4 = Inr (map one_hot_row ''bill'') \<and>
   key_match_s7 (map one_hot_row ''bob.'') (map one_hot_row ''bob.'') = Inr 1 \<and>
   key_match_s7 (map one_hot_row ''bob.'') (map one_hot_row ''bill'') = Inr 0"
proof -
  have e: "string2one_hot_matrix ''Bob'' 4 = Inr (map one_hot_row ''bob.'')"
    "string2one_hot_matrix ''bOb.'' 4 = Inr (map one_hot_row ''bob.'')"
    "string2one_hot_matrix ''Bill'' 4 = Inr (map one_hot_row ''bill'')"
    by code_simp+
  have ne: "map one_hot_row ''bill'' \<noteq> map one_hot_row ''bob.''"
    by code_simp
  have "key_match_s7 (map one_hot_row ''bob.'') (map one_hot_row ''bob.'') = Inr 1"
    using one_hot_key_match[OF e(1) e(2)] by auto
  moreover have "key_match_s7 (map one_hot_row ''bob.'') (map one_hot_row ''bill'') =
      Inr (if map one_hot_row ''bill'' = map one_hot_row ''bob.'' then 1 else 0)"
    using one_hot_key_match[OF e(3) e(1)] by blast
  then have "key_match_s7 (map one_hot_row ''bob.'') (map one_hot_row ''bill'') = Inr 0"
    using ne by (simp only: if_False)
  ultimately show ?thesis using e by (simp only: simp_thms)
qed

section \<open>Masking and aggregation\<close>

lemma tensor_mul_expand: "tensor_mul (expand m (length v)) v = Inr (map ((*) m) v)"
  by (simp add: tensor_mul_def tensor_binop_def expand_def map2_map_map[symmetric] zip_replicate1 
      map_zip_map  del: map2_map_map) 

lemma value_match_of_enumerate:
  "n + length vs \<le> length km \<Longrightarrow>
   traverse (\<lambda>(i, v). if i < length km then tensor_mul (expand (km ! i) (length v)) v
                       else Inl IndexError) (enumerate n vs) =
   Inr (map (\<lambda>(m, v). map ((*) m) v) (zip (drop n km) vs))"
proof (induction vs arbitrary: n)
  case Nil
  then show ?case by simp
next
  case (Cons v vs)
  then have n: "n < length km" and IH: "traverse (\<lambda>(i, v). if i < length km then tensor_mul (expand (km ! i) (length v)) v
                       else Inl IndexError) (enumerate (Suc n) vs) =
   Inr (map (\<lambda>(m, v). map ((*) m) v) (zip (drop (Suc n) km) vs))" by auto
  have d: "drop n km = km ! n # drop (Suc n) km" using n by (simp add: Cons_nth_drop_Suc)
  show ?case using n IH by (simp add: tensor_mul_expand d)
qed

lemma value_match_of_eq:
  "length vs \<le> length km \<Longrightarrow>
   value_match_of km vs = Inr (map (\<lambda>(m, v). map ((*) m) v) (zip km vs))"
  unfolding value_match_of_def using value_match_of_enumerate[of 0 vs km] by simp

lemma fold_tensor_add:
  "length a = L \<Longrightarrow> \<forall>v\<in>set rest. length v = L \<Longrightarrow>
   fold (\<lambda>v acc. case acc of Inl e \<Rightarrow> Inl e | Inr a \<Rightarrow> tensor_add a v) rest (Inr a) =
   Inr (map (\<lambda>p. a ! p + sum_list (map (\<lambda>v. v ! p) rest)) [0..<L])"
proof (induction rest arbitrary: a)
  case Nil
  then show ?case using map_nth[of a] by auto
next
  case (Cons v rest)
  have "tensor_add a v = Inr (map2 (+) a v)"
    using Cons.prems by (simp add: tensor_add_def tensor_binop_def)
  moreover have "length (map2 (+) a v) = L" using Cons.prems by simp
  moreover have "map (\<lambda>p. map2 (+) a v ! p + sum_list (map (\<lambda>v. v ! p) rest)) [0..<L] =
     map (\<lambda>p. a ! p + sum_list (map (\<lambda>v. v ! p) (v # rest))) [0..<L]"
    using Cons.prems by (intro map_cong) auto
  ultimately show ?case using Cons.IH[of "map2 (+) a v"] Cons.prems by simp
qed

lemma sum_values_same_length:
  assumes "vs \<noteq> []" "\<forall>v\<in>set vs. length v = L"
  shows "sum_values vs = Inr (elementwise_sum L vs)"
proof -
  from assms(1) obtain v0 rest where vs: "vs = v0 # rest" by (cases vs) auto
  show ?thesis
    using fold_tensor_add[of v0 L rest] assms(2)
    by (simp add: sum_values_def vs elementwise_sum_def)
qed

lemma masked_position_sum:
  "length ks = length vs \<Longrightarrow> \<forall>v\<in>set vs. p < length v \<Longrightarrow>
   sum_list (map (\<lambda>v. v ! p) (map (\<lambda>(m, v). map ((*) m) v)
      (zip (map (\<lambda>k. if k = q then 1 else 0) ks) vs))) =
   sum_list (map (\<lambda>v. v ! p) (matching_values q ks vs))"
  by (induction ks vs rule: list_induct2) (auto simp: matching_values_def)

lemma masked_aggregate:
  assumes "length ks = length vs" "vs \<noteq> []" "\<forall>v\<in>set vs. length v = L"
  shows "(case value_match_of (map (\<lambda>k. if k = q then 1 else 0) ks) vs of
            Inl e \<Rightarrow> Inl e
          | Inr value_match \<Rightarrow> sum_values value_match) =
         Inr (elementwise_sum L (matching_values q ks vs))"
proof -
  define vm where "vm = map (\<lambda>(m, v). map ((*) m) v) (zip (map (\<lambda>k. if k = q then 1 else 0) ks) vs)"
  have v: "value_match_of (map (\<lambda>k. if k = q then 1 else 0) ks) vs = Inr vm"
    unfolding vm_def using assms(1) by (intro value_match_of_eq) simp
  have ne: "vm \<noteq> []" unfolding vm_def using assms(1,2) by (cases ks; cases vs) auto
  have len: "\<forall>v\<in>set vm. length v = L"
    unfolding vm_def using assms(3) by (auto dest!: set_zip_rightD)
  have "elementwise_sum L vm = elementwise_sum L (matching_values q ks vs)"
    unfolding elementwise_sum_def vm_def
    using assms(1,3) by (intro map_cong refl masked_position_sum) auto
  then show ?thesis
    using v sum_values_same_length[OF ne len] by simp
qed

lemma matching_values_none:
  "length ks = length vs \<Longrightarrow> q \<notin> set ks \<Longrightarrow> matching_values q ks vs = []"
  by (induction ks vs rule: list_induct2) (auto simp: matching_values_def)

lemma matching_values_distinct:
  "length ks = length vs \<Longrightarrow> distinct ks \<Longrightarrow> i < length ks \<Longrightarrow>
   matching_values (ks ! i) ks vs = [vs ! i]"
proof (induction ks vs arbitrary: i rule: list_induct2)
  case Nil
  then show ?case by simp
next
  case (Cons k ks v vs)
  show ?case
  proof (cases i)
    case 0
    then show ?thesis
      using Cons.prems Cons.hyps matching_values_none[of ks vs k]
      by (simp add: matching_values_def)
  next
    case (Suc j)
    then have "ks ! j \<noteq> k" using Cons.prems by auto
    then show ?thesis using Suc Cons by (simp add: matching_values_def)
  qed
qed

lemma elementwise_sum_Nil: "elementwise_sum L [] = replicate L 0"
  by (simp add: elementwise_sum_def map_replicate_const)

lemma elementwise_sum_single: "length v = L \<Longrightarrow> elementwise_sum L [v] = v"
  using map_nth[of v] by (auto simp: elementwise_sum_def)


section \<open>The store of Section 7\<close>

lemma add_entry_s7_Inr:
  assumes "add_entry_s7 db k v = Inr db'"
  shows "db' = db\<lparr>db_keys := db_keys db @ [map one_hot_row (pad_or_truncate (lower k) (max_key_len db))],
                  db_values := db_values db @ [map code_s7 (pad_or_truncate (lower v) (max_value_len db))]\<rparr>"
    and "0 < max_key_len db"
    and "set (pad_or_truncate (lower k) (max_key_len db)) \<subseteq> set alphabet_s7"
    and "set (pad_or_truncate (lower v) (max_value_len db)) \<subseteq> set alphabet_s7"
    and "string2one_hot_matrix k (max_key_len db) =
           Inr (map one_hot_row (pad_or_truncate (lower k) (max_key_len db)))"
proof -
  from assms obtain key where key: "string2one_hot_matrix k (max_key_len db) = Inr key"
    by (auto simp: add_entry_s7_def split: sum.splits)
  note K = string2one_hot_matrix_Inr[OF key]
  from assms key obtain val where val: "string2values_s7 v (max_value_len db) = Inr val"
    by (auto simp: add_entry_s7_def split: sum.splits)
  have a: "set (lower (take (max_value_len db) v)) \<subseteq> set alphabet_s7"
    using val string2values_s7_KeyError[of "max_value_len db" v] by auto
  then have val': "val = map code_s7 (pad_or_truncate (lower v) (max_value_len db))"
    using val by (simp add: string2values_s7_ok)
  show "db' = db\<lparr>db_keys := db_keys db @ [map one_hot_row (pad_or_truncate (lower k) (max_key_len db))],
                  db_values := db_values db @ [map code_s7 (pad_or_truncate (lower v) (max_value_len db))]\<rparr>"
    using assms key val K(3) val' by (simp add: add_entry_s7_def)
  show "0 < max_key_len db" by (rule K(1))
  show "set (pad_or_truncate (lower k) (max_key_len db)) \<subseteq> set alphabet_s7" by (rule K(2))
  show "set (pad_or_truncate (lower v) (max_value_len db)) \<subseteq> set alphabet_s7"
    using a dot_in_alphabet_s7 by (intro set_pad_or_truncate) (simp_all add: lower_take)
  show "string2one_hot_matrix k (max_key_len db) =
           Inr (map one_hot_row (pad_or_truncate (lower k) (max_key_len db)))"
    using key K(3) by simp
qed

lemma add_entries_s7_Inr:
  assumes "add_entries_s7 db es = Inr db'"
  shows "db_keys db' = db_keys db @
            map (\<lambda>(k, v). map one_hot_row (pad_or_truncate (lower k) (max_key_len db))) es \<and>
         db_values db' = db_values db @
            map (\<lambda>(k, v). map code_s7 (pad_or_truncate (lower v) (max_value_len db))) es \<and>
         max_key_len db' = max_key_len db \<and> max_value_len db' = max_value_len db \<and>
         owners db' = owners db \<and>
         (es \<noteq> [] \<longrightarrow> 0 < max_key_len db) \<and>
         (\<forall>(k, v)\<in>set es. set (pad_or_truncate (lower k) (max_key_len db)) \<subseteq> set alphabet_s7 \<and>
                           set (pad_or_truncate (lower v) (max_value_len db)) \<subseteq> set alphabet_s7)"
  using assms
proof (induction es arbitrary: db)
  case Nil
  then show ?case by simp
next
  case (Cons e es)
  obtain k v where e: "e = (k, v)" by (cases e)
  from Cons.prems e obtain db1 where 1: "add_entry_s7 db k v = Inr db1"
    and 2: "add_entries_s7 db1 es = Inr db'"
    by (auto split: sum.splits)
  note A = add_entry_s7_Inr[OF 1]
  have cfg: "max_key_len db1 = max_key_len db" "max_value_len db1 = max_value_len db"
    "owners db1 = owners db"
    "db_keys db1 = db_keys db @ [map one_hot_row (pad_or_truncate (lower k) (max_key_len db))]"
    "db_values db1 = db_values db @ [map code_s7 (pad_or_truncate (lower v) (max_value_len db))]"
    by (simp_all add: A(1))
  show ?case
    using Cons.IH[OF 2] A(2,3,4) unfolding cfg e by simp
qed

lemma traverse_key_match_s7:
  assumes "\<forall>K\<in>set Ks. \<exists>xs. K = map one_hot_row xs \<and> length xs = n \<and> set xs \<subseteq> set alphabet_s7"
    and "0 < n" and "length ys = n" and "set ys \<subseteq> set alphabet_s7"
  shows "traverse (key_match_s7 (map one_hot_row ys)) Ks =
           Inr (map (\<lambda>K. if K = map one_hot_row ys then 1 else 0) Ks)"
proof (rule traverse_map)
  fix K assume "K \<in> set Ks"
  with assms(1) obtain xs where xs: "K = map one_hot_row xs" "length xs = n" "set xs \<subseteq> set alphabet_s7"
    by blast
  have "key_match_s7 (map one_hot_row ys) (map one_hot_row xs) = Inr (if xs = ys then 1 else 0)"
    using xs assms(2,3,4) by (intro key_match_s7_rows) auto
  moreover have "xs = ys \<longleftrightarrow> map one_hot_row xs = map one_hot_row ys"
    using map_one_hot_row_inj[OF xs(3) assms(4)] by auto
  ultimately show "key_match_s7 (map one_hot_row ys) K = Inr (if K = map one_hot_row ys then 1 else 0)"
    using xs(1) by simp
qed

lemma final_value_s7_eq:
  assumes "add_entries_s7 (DecentralizedDB_s7 os mkl mvl) es = Inr db" and "es \<noteq> []"
    and "string2one_hot_matrix q mkl = Inr Q"
  shows "final_value_s7 db q =
           Inr (elementwise_sum mvl (matching_values Q (db_keys db) (db_values db)))"
proof -
  note S = add_entries_s7_Inr[OF assms(1)]
  have cfg: "max_key_len db = mkl" "max_value_len db = mvl"
    and ks: "db_keys db = map (\<lambda>(k, v). map one_hot_row (pad_or_truncate (lower k) mkl)) es"
    and vs: "db_values db = map (\<lambda>(k, v). map code_s7 (pad_or_truncate (lower v) mvl)) es"
    and al: "\<forall>(k, v)\<in>set es. set (pad_or_truncate (lower k) mkl) \<subseteq> set alphabet_s7"
    using S by (auto simp: DecentralizedDB_s7_def)
  note Q = string2one_hot_matrix_Inr[OF assms(3)]
  have wf: "\<forall>K\<in>set (db_keys db). \<exists>xs. K = map one_hot_row xs \<and> length xs = mkl \<and>
      set xs \<subseteq> set alphabet_s7"
    unfolding ks using al by (fastforce simp: length_pad_or_truncate)
  have km: "traverse (key_match_s7 Q) (db_keys db) =
      Inr (map (\<lambda>K. if K = Q then 1 else 0) (db_keys db))"
    unfolding Q(3) using wf Q(1) _ Q(2)
    by (rule traverse_key_match_s7) (simp add: length_pad_or_truncate)
  have len: "length (db_keys db) = length (db_values db)" by (simp add: ks vs)
  have ne: "db_values db \<noteq> []" using assms(2) by (simp add: vs)
  have L: "\<forall>v\<in>set (db_values db). length v = mvl"
    unfolding vs by (auto simp: length_pad_or_truncate)
  show ?thesis
    unfolding final_value_s7_def cfg assms(3)
    using km masked_aggregate[OF len ne L, of Q] by simp
qed

section \<open>The stores of Sections 5 and 6\<close>

lemma code_s5_in:
  assumes "c \<in> set alphabet_s5"
  shows "char2int_s5 c = Some (nat (code_s5 c)) \<and> nat (code_s5 c) < length alphabet_s5 \<and>
         alphabet_s5 ! nat (code_s5 c) = c \<and> 0 \<le> code_s5 c"
proof -
  from assms obtain i where i: "char2int_s5 c = Some i"
    using char2int_of_None[of alphabet_s5 c] by (auto simp: char2int_s5_def)
  then show ?thesis
    using char2int_of_Some[OF distinct_alphabet_s5, of c i]
    by (simp add: char2int_s5_def code_s5_def)
qed

lemma char2int_s5_notin: "c \<notin> set alphabet_s5 \<Longrightarrow> char2int_s5 c = None"
  using char2int_of_None[of alphabet_s5 c] by (simp add: char2int_s5_def)

lemma int2char_code_s5:
  "c \<in> set alphabet_s5 \<Longrightarrow> int2char_s5 (code_s5 c) = Some c"
proof -
  assume c: "c \<in> set alphabet_s5"
  note C = code_s5_in[OF c]
  have "code_s5 c < int (length alphabet_s5)" using C by linarith
  then show ?thesis using C by (simp add: int2char_s5_def int2char_of_eq)
qed

lemma string2values_s5_eq:
  "string2values_s5 s = (if set s \<subseteq> set alphabet_s5 then Inr (map code_s5 s) else Inl KeyError)"
proof (cases "set s \<subseteq> set alphabet_s5")
  case True
  have "traverse (\<lambda>char. case char2int_s5 char of None \<Rightarrow> Inl KeyError | Some i \<Rightarrow> Inr (int i)) s
      = Inr (map code_s5 s)"
  proof (rule traverse_map)
    fix c assume "c \<in> set s"
    with True have "c \<in> set alphabet_s5" by auto
    from code_s5_in[OF this]
    show "(case char2int_s5 c of None \<Rightarrow> Inl KeyError | Some i \<Rightarrow> Inr (int i)) = Inr (code_s5 c)"
      by simp
  qed
  with True show ?thesis by (simp add: string2values_s5_def)
next
  case False
  then obtain c where c: "c \<in> set s" "c \<notin> set alphabet_s5" by auto
  have "traverse (\<lambda>char. case char2int_s5 char of None \<Rightarrow> Inl KeyError | Some i \<Rightarrow> Inr (int i)) s
      = Inl KeyError"
    using c by (intro traverse_KeyError[where x = c]) (auto simp: char2int_s5_notin split: option.splits)
  with False show ?thesis by (simp add: string2values_s5_def)
qed

lemma values2string_s5_code:
  assumes "set s \<subseteq> set alphabet_s5"
  shows "values2string_s5 (map code_s5 s) = Inr s"
proof -
  have "traverse (\<lambda>v. case int2char_s5 v of None \<Rightarrow> Inl KeyError | Some c \<Rightarrow> Inr c) (map code_s5 s)
      = Inr (map (\<lambda>v. alphabet_s5 ! nat v) (map code_s5 s))"
  proof (rule traverse_map)
    fix v assume "v \<in> set (map code_s5 s)"
    then obtain c where c: "c \<in> set s" "v = code_s5 c" by auto
    with assms have "c \<in> set alphabet_s5" by auto
    from int2char_code_s5[OF this] code_s5_in[OF this] c(2)
    show "(case int2char_s5 v of None \<Rightarrow> Inl KeyError | Some c \<Rightarrow> Inr c) = Inr (alphabet_s5 ! nat v)"
      by simp
  qed
  moreover have "map (\<lambda>v. alphabet_s5 ! nat v) (map code_s5 s) = s"
    using assms code_s5_in by (auto simp: map_idI subset_iff)
  ultimately show ?thesis by (simp add: values2string_s5_def)
qed

lemma int2char_s5_zero: "int2char_s5 0 = Some (CHR '' '')"
  by (simp add: int2char_s5_def int2char_of_eq length_alphabet_s5) (simp add: alphabet_s5_def)

lemma int2char_s7_zero: "int2char_s7 0 = Some (CHR '' '')"
  by (simp add: int2char_s7_def int2char_of_eq length_alphabet_s7) (simp add: alphabet_s7_def)

lemma values2string_s5_zeros: "values2string_s5 (replicate L 0) = Inr (replicate L (CHR '' ''))"
proof -
  have "traverse (\<lambda>v. case int2char_s5 v of None \<Rightarrow> Inl KeyError | Some c \<Rightarrow> Inr c) (replicate L 0)
      = Inr (map (\<lambda>v. CHR '' '') (replicate L (0::int)))"
    by (rule traverse_map) (auto simp: int2char_s5_zero)
  then show ?thesis by (simp add: values2string_s5_def)
qed

lemma values2string_s6_zeros:
  "int2char 0 = Some (CHR '' '') \<Longrightarrow>
   values2string_s6 int2char (replicate L 0) = replicate L (CHR '' '')"
  by (simp add: values2string_s6_def)

lemma add_entries_s5_Inr:
  assumes "add_entries_s5 hash fld db es = Inr db'"
  shows "tdb_keys db' = tdb_keys db @ map (\<lambda>(k, v). string2key_s5 hash fld k) es \<and>
         tdb_values db' = tdb_values db @ map (\<lambda>(k, v). map code_s5 v) es \<and>
         (\<forall>(k, v)\<in>set es. set v \<subseteq> set alphabet_s5)"
  using assms
proof (induction es arbitrary: db)
  case Nil
  then show ?case by simp
next
  case (Cons e es)
  obtain k v where e: "e = (k, v)" by (cases e)
  from Cons.prems e obtain db1 where 1: "add_entry_s5 hash fld db k v = (None, db1)"
    and 2: "add_entries_s5 hash fld db1 es = Inr db'"
    by (auto split: prod.splits option.splits)
  from 1 have v: "set v \<subseteq> set alphabet_s5"
    and db1: "tdb_keys db1 = tdb_keys db @ [string2key_s5 hash fld k]"
       "tdb_values db1 = tdb_values db @ [map code_s5 v]"
    by (auto simp: add_entry_s5_def string2values_s5_eq Let_def split: if_splits)
  show ?case using Cons.IH[OF 2] v unfolding db1 e by simp
qed

lemma add_entries_s6_Inr:
  assumes "add_entries_s6 hash fld db es = Inr db'"
  shows "hdb_keys db' = hdb_keys db @ map (\<lambda>(k, v). string2key_s6 hash fld k) es \<and>
         hdb_values db' = hdb_values db @ map (\<lambda>(k, v). map code_s5 v) es \<and>
         hdb_owners db' = hdb_owners db \<and>
         (\<forall>(k, v)\<in>set es. set v \<subseteq> set alphabet_s5)"
  using assms
proof (induction es arbitrary: db)
  case Nil
  then show ?case by simp
next
  case (Cons e es)
  obtain k v where e: "e = (k, v)" by (cases e)
  from Cons.prems e obtain db1 where 1: "add_entry_s6 hash fld db k v = Inr db1"
    and 2: "add_entries_s6 hash fld db1 es = Inr db'"
    by (auto split: sum.splits)
  from 1 have v: "set v \<subseteq> set alphabet_s5"
    and db1: "hdb_keys db1 = hdb_keys db @ [string2key_s6 hash fld k]"
       "hdb_values db1 = hdb_values db @ [map code_s5 v]" "hdb_owners db1 = hdb_owners db"
    by (auto simp: add_entry_s6_def string2values_s5_eq Let_def split: if_splits)
  show ?case using Cons.IH[OF 2] v unfolding db1 e by simp
qed

lemma final_value_s5_eq:
  assumes "add_entries_s5 hash fld TensorDB es = Inr db" and "es \<noteq> []"
    and "\<forall>(k, v)\<in>set es. length v = L"
  shows "final_value_s5 hash fld db q =
     Inr (elementwise_sum L (matching_values (string2key_s5 hash fld q) (tdb_keys db) (tdb_values db)))"
proof -
  note S = add_entries_s5_Inr[OF assms(1)]
  have ks: "tdb_keys db = map (\<lambda>(k, v). string2key_s5 hash fld k) es"
    and vs: "tdb_values db = map (\<lambda>(k, v). map code_s5 v) es"
    using S by (auto simp: TensorDB_def)
  have len: "length (tdb_keys db) = length (tdb_values db)" by (simp add: ks vs)
  have ne: "tdb_values db \<noteq> []" using assms(2) by (simp add: vs)
  have L: "\<forall>v\<in>set (tdb_values db). length v = L"
    unfolding vs using assms(3) by auto
  show ?thesis
    unfolding final_value_s5_def Let_def
    using masked_aggregate[OF len ne L, of "string2key_s5 hash fld q"] by simp
qed

lemma final_value_s6_eq:
  assumes "add_entries_s6 hash fld (DecentralizedDB_s6 os) es = Inr db" and "es \<noteq> []"
    and "\<forall>(k, v)\<in>set es. length v = L"
  shows "final_value_s6 hash fld db q =
     Inr (elementwise_sum L (matching_values (string2key_s6 hash fld q) (hdb_keys db) (hdb_values db)))"
proof -
  note S = add_entries_s6_Inr[OF assms(1)]
  have ks: "hdb_keys db = map (\<lambda>(k, v). string2key_s6 hash fld k) es"
    and vs: "hdb_values db = map (\<lambda>(k, v). map code_s5 v) es"
    using S by (auto simp: DecentralizedDB_s6_def)
  have len: "length (hdb_keys db) = length (hdb_values db)" by (simp add: ks vs)
  have ne: "hdb_values db \<noteq> []" using assms(2) by (simp add: vs)
  have L: "\<forall>v\<in>set (hdb_values db). length v = L"
    unfolding vs using assms(3) by auto
  show ?thesis
    unfolding final_value_s6_def Let_def
    using masked_aggregate[OF len ne L, of "string2key_s6 hash fld q"] by simp
qed

section \<open>Queries\<close>

lemma filter_pad_or_truncate:
  "filter (\<lambda>c. c \<noteq> CHR ''.'') (pad_or_truncate s n) = filter (\<lambda>c. c \<noteq> CHR ''.'') (take n s)"
  by (simp add: pad_or_truncate_def)

lemma pad_subset_take_subset:
  "set (pad_or_truncate (lower k) n) \<subseteq> A \<Longrightarrow> set (lower (take n k)) \<subseteq> A"
  using set_take_subset_pad[of n "lower k"] by (auto simp: lower_take)

lemma query_s7_key:
  assumes "add_entries_s7 (DecentralizedDB_s7 os mkl mvl) es = Inr db"
    and "distinct (db_keys db)" and "i < length es"
  shows "query_s7 db (fst (es ! i)) =
           Inr (filter (\<lambda>c. c \<noteq> CHR ''.'') (lower (take mvl (snd (es ! i)))))"
proof -
  obtain k v where kv: "es ! i = (k, v)" by (cases "es ! i")
  note S = add_entries_s7_Inr[OF assms(1)]
  have ne: "es \<noteq> []" using assms(3) by auto
  have ks: "db_keys db = map (\<lambda>(k, v). map one_hot_row (pad_or_truncate (lower k) mkl)) es"
    and vs: "db_values db = map (\<lambda>(k, v). map code_s7 (pad_or_truncate (lower v) mvl)) es"
    and mkl: "0 < mkl"
    using S ne by (auto simp: DecentralizedDB_s7_def)
  have "(k, v) \<in> set es" using kv assms(3) by (metis nth_mem)
  then have al: "set (pad_or_truncate (lower k) mkl) \<subseteq> set alphabet_s7"
      "set (pad_or_truncate (lower v) mvl) \<subseteq> set alphabet_s7"
    using S by (auto simp: DecentralizedDB_s7_def)
  have ki: "db_keys db ! i = map one_hot_row (pad_or_truncate (lower k) mkl)"
    and vi: "db_values db ! i = map code_s7 (pad_or_truncate (lower v) mvl)"
    using assms(3) kv by (simp_all add: ks vs)
  have enc: "string2one_hot_matrix k mkl = Inr (db_keys db ! i)"
    using mkl pad_subset_take_subset[OF al(1)] by (simp add: string2one_hot_matrix_eq ki)
  have len: "length (db_keys db) = length (db_values db)" by (simp add: ks vs)
  have i: "i < length (db_keys db)" using assms(3) by (simp add: ks)
  have "final_value_s7 db k = Inr (elementwise_sum mvl [db_values db ! i])"
    using final_value_s7_eq[OF assms(1) ne enc] matching_values_distinct[OF len assms(2) i]
    by simp
  also have "elementwise_sum mvl [db_values db ! i] = map code_s7 (pad_or_truncate (lower v) mvl)"
    unfolding vi by (rule elementwise_sum_single) (simp add: length_pad_or_truncate)
  finally have "query_s7 db k =
      Inr (filter (\<lambda>c. c \<noteq> CHR ''.'') (pad_or_truncate (lower v) mvl))"
    by (simp add: query_s7_def values2string_code_s7[OF al(2)])
  then show ?thesis
    by (simp add: kv filter_pad_or_truncate lower_take)
qed

lemma query_s5_key:
  assumes "add_entries_s5 hash fld TensorDB es = Inr db"
    and "distinct (tdb_keys db)" and "i < length es" and "\<forall>(k, v)\<in>set es. length v = L"
  shows "query_s5 hash fld db (fst (es ! i)) = Inr (snd (es ! i))"
proof -
  obtain k v where kv: "es ! i = (k, v)" by (cases "es ! i")
  note S = add_entries_s5_Inr[OF assms(1)]
  have ne: "es \<noteq> []" using assms(3) by auto
  have ks: "tdb_keys db = map (\<lambda>(k, v). string2key_s5 hash fld k) es"
    and vs: "tdb_values db = map (\<lambda>(k, v). map code_s5 v) es"
    using S by (auto simp: TensorDB_def)
  have mem: "(k, v) \<in> set es" using kv assms(3) by (metis nth_mem)
  then have al: "set v \<subseteq> set alphabet_s5" and lv: "length v = L"
    using S assms(4) by auto
  have ki: "tdb_keys db ! i = string2key_s5 hash fld k"
    and vi: "tdb_values db ! i = map code_s5 v"
    using assms(3) kv by (simp_all add: ks vs)
  have len: "length (tdb_keys db) = length (tdb_values db)" by (simp add: ks vs)
  have i: "i < length (tdb_keys db)" using assms(3) by (simp add: ks)
  have "final_value_s5 hash fld db k = Inr (elementwise_sum L [tdb_values db ! i])"
    using final_value_s5_eq[OF assms(1) ne assms(4), of k]
      matching_values_distinct[OF len assms(2) i]
    by (simp add: ki)
  also have "elementwise_sum L [tdb_values db ! i] = map code_s5 v"
    unfolding vi by (rule elementwise_sum_single) (simp add: lv)
  finally show ?thesis
    by (simp add: query_s5_def values2string_s5_code[OF al] kv)
qed

text \<open>
  Claim C1 (for a store with pairwise distinct encoded keys, \<^verbatim>\<open>query(key_i)\<close> returns
  exactly \<open>value_i\<close>), as amended. The store is built by calls of \<^verbatim>\<open>add_entry\<close> that
  all return, and its encoded keys are pairwise distinct. In the \<^verbatim>\<open>DecentralizedDB\<close> of
  Section 7 the query for the key of entry \<open>i\<close> returns the value of entry \<open>i\<close> lowered,
  truncated to \<open>max_value_len\<close>, without its \<^verbatim>\<open>.\<close> characters. In \<^verbatim>\<open>TensorDB\<close>,
  when the stored values have one length, it returns the value of entry \<open>i\<close> itself.
\<close>

theorem query_returns_stored_value:
  "(add_entries_s7 (DecentralizedDB_s7 os mkl mvl) es = Inr db \<and> distinct (db_keys db) \<and>
    i < length es \<longrightarrow>
      query_s7 db (fst (es ! i)) =
        Inr (filter (\<lambda>c. c \<noteq> CHR ''.'') (lower (take mvl (snd (es ! i)))))) \<and>
   (add_entries_s5 hash fld TensorDB es = Inr tdb \<and> distinct (tdb_keys tdb) \<and>
    i < length es \<and> (\<forall>(k, v)\<in>set es. length v = L) \<longrightarrow>
      query_s5 hash fld tdb (fst (es ! i)) = Inr (snd (es ! i)))"
  using query_s7_key[of os mkl mvl es db i] query_s5_key[of hash fld es tdb i L] by blast

theorem query_returns_stored_value_witness:
  "(add_entries_s7 (DecentralizedDB_s7 example_owners 3 16) example_entries = Inr example_db_s7 \<and>
    distinct (db_keys example_db_s7) \<and> 1 < length example_entries) \<and>
   query_s7 example_db_s7 ''Bill'' = Inr ''(234) 567-8901'' \<and>
   (add_entries_s5 example_hash example_field TensorDB example_entries = Inr example_db_s5 \<and>
    distinct (tdb_keys example_db_s5) \<and> list_all (\<lambda>(k, v). length v = 14) example_entries) \<and>
   query_s5 example_hash example_field example_db_s5 ''Bill'' = Inr ''(234) 567-8901''"
proof -
  have h7: "add_entries_s7 (DecentralizedDB_s7 example_owners 3 16) example_entries = Inr example_db_s7"
    "distinct (db_keys example_db_s7)"
    by code_simp+
  have h5: "add_entries_s5 example_hash example_field TensorDB example_entries = Inr example_db_s5"
    "distinct (tdb_keys example_db_s5)"
    by code_simp+
  have i: "1 < length example_entries" and l: "list_all (\<lambda>(k, v). length v = 14) example_entries"
    and l': "\<forall>(k, v)\<in>set example_entries. length v = 14"
    by (simp_all add: example_entries_def)
  have e: "fst (example_entries ! 1) = ''Bill''" "snd (example_entries ! 1) = ''(234) 567-8901''"
    by (simp_all add: example_entries_def)
  have f: "filter (\<lambda>c. c \<noteq> CHR ''.'') (lower (take 16 ''(234) 567-8901'')) = ''(234) 567-8901''"
    by code_simp
  have "query_s7 example_db_s7 ''Bill'' = Inr ''(234) 567-8901''"
    using query_returns_stored_value[of example_owners 3 16 example_entries example_db_s7 1]
      h7 i unfolding e f by blast
  moreover have "query_s5 example_hash example_field example_db_s5 ''Bill'' = Inr ''(234) 567-8901''"
    using query_returns_stored_value[of _ _ _ example_entries _ 1 example_hash example_field
        example_db_s5 14] h5 i l' unfolding e by blast
  ultimately show ?thesis using h7 h5 i l by (simp only: simp_thms)
qed

text \<open>
  Claim C1 as stated fails in the \<^verbatim>\<open>DecentralizedDB\<close> of Section 7 for a store with
  the one entry \<^verbatim>\<open>Key\<close>, \<^verbatim>\<open>Hello\<close>: the query for \<^verbatim>\<open>Key\<close> returns
  \<^verbatim>\<open>hello\<close>.
\<close>

theorem query_returns_stored_value_counterexample:
  "(case add_entries_s7 (DecentralizedDB_s7 example_owners 3 8) [(''Key'', ''Hello'')] of
      Inl e \<Rightarrow> False
    | Inr db \<Rightarrow> distinct (db_keys db) \<and> query_s7 db ''Key'' = Inr ''hello'') \<and>
   ''hello'' \<noteq> ''Hello''"
  by code_simp

section \<open>Duplicate keys and unknown keys\<close>







lemma query_s5_unknown:
  assumes "add_entries_s5 hash fld TensorDB es = Inr db" and "es \<noteq> []"
    and "\<forall>(k, v)\<in>set es. length v = L"
    and "string2key_s5 hash fld q \<notin> set (tdb_keys db)"
  shows "query_s5 hash fld db q = Inr (replicate L (CHR '' ''))"
proof -
  note S = add_entries_s5_Inr[OF assms(1)]
  have len: "length (tdb_keys db) = length (tdb_values db)"
    using S by (simp add: TensorDB_def)
  have "final_value_s5 hash fld db q = Inr (replicate L 0)"
    using final_value_s5_eq[OF assms(1,2,3), of q] matching_values_none[OF len assms(4)]
    by (simp add: elementwise_sum_Nil)
  then show ?thesis by (simp add: query_s5_def values2string_s5_zeros)
qed

lemma query_s6_unknown:
  assumes "add_entries_s6 hash fld (DecentralizedDB_s6 os) es = Inr db" and "es \<noteq> []"
    and "\<forall>(k, v)\<in>set es. length v = L" and "0 < L"
    and "string2key_s6 hash fld q \<notin> set (hdb_keys db)"
    and "\<forall>s. set (set_list s) = set s" and "gets 0 = (\<lambda>t. t)"
  shows "query_s6 set_list gets limit hash fld db q = Inr (replicate L (CHR '' ''))"
proof -
  note S = add_entries_s6_Inr[OF assms(1)]
  have len: "length (hdb_keys db) = length (hdb_values db)"
    using S by (simp add: DecentralizedDB_s6_def)
  have "final_value_s6 hash fld db q = Inr (replicate L 0)"
    using final_value_s6_eq[OF assms(1,2,3), of q] matching_values_none[OF len assms(5)]
    by (simp add: elementwise_sum_Nil)
  then have a: "attempt_s6 (gets 0) hash fld db q = Inr (replicate L (CHR '' ''))"
    by (simp add: attempt_s6_def assms(7) values2string_s6_zeros int2char_s5_zero)
  have "set (set_list (replicate L (CHR '' ''))) = {CHR '' ''}"
    using assms(4,6) by simp
  then obtain cs where "set_list (replicate L (CHR '' '')) = CHR '' '' # cs"
    by (cases "set_list (replicate L (CHR '' ''))") auto
  then have "pass_s6 set_list (gets 0) hash fld db q = Finished (Inr (replicate L (CHR '' '')))"
    by (simp add: pass_s6_def a)
  then show ?thesis
    unfolding query_s6_def by (cases limit) simp_all
qed

lemma query_s7_unknown:
  assumes "add_entries_s7 (DecentralizedDB_s7 os mkl mvl) es = Inr db" and "es \<noteq> []"
    and "string2one_hot_matrix q mkl = Inr Q" and "Q \<notin> set (db_keys db)"
  shows "query_s7 db q = Inr (replicate mvl (CHR '' ''))"
proof -
  note S = add_entries_s7_Inr[OF assms(1)]
  have len: "length (db_keys db) = length (db_values db)"
    using S by (simp add: DecentralizedDB_s7_def)
  have "final_value_s7 db q = Inr (replicate mvl 0)"
    using final_value_s7_eq[OF assms(1,2,3)] matching_values_none[OF len assms(4)]
    by (simp add: elementwise_sum_Nil)
  then show ?thesis
    by (simp add: query_s7_def values2string_s6_zeros int2char_s7_zero)
qed

text \<open>
  Claim C3 (a key whose encoding matches no stored key gets a not-found result, never a
  string that is not the sentinel), as amended. No query of the notebook has a
  not-found result. For a store built by calls of \<^verbatim>\<open>add_entry\<close> that all returned, with
  at least one entry, the masked values of a key that matches no record are all zero, code
  0 decodes to a space, and the query returns a string of spaces: one for every position
  of the values in \<^verbatim>\<open>TensorDB\<close> and in the \<^verbatim>\<open>DecentralizedDB\<close> of Section 6 (for
  values of one positive length, an exact first reconstruction, and any order of listing a
  set), \<open>max_value_len\<close> of them in the \<^verbatim>\<open>DecentralizedDB\<close> of Section 7.
\<close>

theorem query_unknown_key_spaces:
  "(add_entries_s5 hash fld TensorDB es = Inr tdb \<and> es \<noteq> [] \<and>
    (\<forall>(k, v)\<in>set es. length v = L) \<and> string2key_s5 hash fld q \<notin> set (tdb_keys tdb) \<longrightarrow>
      query_s5 hash fld tdb q = Inr (replicate L (CHR '' ''))) \<and>
   (add_entries_s6 hash fld (DecentralizedDB_s6 os) es = Inr hdb \<and> es \<noteq> [] \<and>
    (\<forall>(k, v)\<in>set es. length v = L) \<and> 0 < L \<and>
    string2key_s6 hash fld q \<notin> set (hdb_keys hdb) \<and>
    (\<forall>s. set (set_list s) = set s) \<and> gets 0 = (\<lambda>t. t) \<longrightarrow>
      query_s6 set_list gets limit hash fld hdb q = Inr (replicate L (CHR '' ''))) \<and>
   (add_entries_s7 (DecentralizedDB_s7 os mkl mvl) es = Inr db \<and> es \<noteq> [] \<and>
    string2one_hot_matrix q mkl = Inr Q \<and> Q \<notin> set (db_keys db) \<longrightarrow>
      query_s7 db q = Inr (replicate mvl (CHR '' '')))"
  using query_s5_unknown[of hash fld es tdb L q]
    query_s6_unknown[of hash fld os es hdb L q set_list gets limit]
    query_s7_unknown[of os mkl mvl es db q Q]
  by blast

theorem query_unknown_key_spaces_witness:
  "(add_entries_s5 example_hash example_field TensorDB example_entries = Inr example_db_s5 \<and>
    example_entries \<noteq> [] \<and> list_all (\<lambda>(k, v). length v = 14) example_entries \<and>
    string2key_s5 example_hash example_field ''hey'' \<notin> set (tdb_keys example_db_s5)) \<and>
   query_s5 example_hash example_field example_db_s5 ''hey'' = Inr ''              '' \<and>
   (add_entries_s6 example_hash example_field (DecentralizedDB_s6 example_owners) example_entries =
      Inr example_db_s6 \<and>
    string2key_s6 example_hash example_field ''hey'' \<notin> set (hdb_keys example_db_s6) \<and>
    (\<forall>s. set (remdups s) = set s)) \<and>
   query_s6 remdups (\<lambda>n t. t) 994 example_hash example_field example_db_s6 ''hey'' =
     Inr ''              '' \<and>
   (add_entries_s7 (DecentralizedDB_s7 example_owners 3 16) example_entries = Inr example_db_s7 \<and>
    string2one_hot_matrix ''Zoe'' 3 = Inr (map one_hot_row ''zoe'') \<and>
    map one_hot_row ''zoe'' \<notin> set (db_keys example_db_s7)) \<and>
   query_s7 example_db_s7 ''Zoe'' = Inr ''                ''"
proof -
  have a: "add_entries_s5 example_hash example_field TensorDB example_entries = Inr example_db_s5"
    "string2key_s5 example_hash example_field ''hey'' \<notin> set (tdb_keys example_db_s5)"
    by code_simp+
  have b: "add_entries_s6 example_hash example_field (DecentralizedDB_s6 example_owners) example_entries =
      Inr example_db_s6"
    "string2key_s6 example_hash example_field ''hey'' \<notin> set (hdb_keys example_db_s6)"
    by code_simp+
  have c: "add_entries_s7 (DecentralizedDB_s7 example_owners 3 16) example_entries = Inr example_db_s7"
    "string2one_hot_matrix ''Zoe'' 3 = Inr (map one_hot_row ''zoe'')"
    "map one_hot_row ''zoe'' \<notin> set (db_keys example_db_s7)"
    by code_simp+
  have d: "example_entries \<noteq> []" "list_all (\<lambda>(k, v). length v = 14) example_entries"
    "\<forall>(k, v)\<in>set example_entries. length v = 14"
    by (simp_all add: example_entries_def)
  have r: "\<forall>s. set (remdups s) = set s" "(\<lambda>n t. t) 0 = (\<lambda>t::tensor. t)" "(0::nat) < 14"
    by simp_all
  have sp: "replicate 14 (CHR '' '') = ''              ''"
    "replicate 16 (CHR '' '') = ''                ''"
    by code_simp+
  have 1: "query_s5 example_hash example_field example_db_s5 ''hey'' = Inr ''              ''"
    using query_unknown_key_spaces[where hash = example_hash and fld = example_field
        and es = example_entries and tdb = example_db_s5 and L = 14 and q = "''hey''"]
      a d(1,3) unfolding sp by blast
  have 2: "query_s6 remdups (\<lambda>n t. t) 994 example_hash example_field example_db_s6 ''hey'' =
     Inr ''              ''"
    using query_unknown_key_spaces[where hash = example_hash and fld = example_field
        and es = example_entries and hdb = example_db_s6 and L = 14 and q = "''hey''"
        and os = example_owners and set_list = remdups and gets = "\<lambda>n t. t" and limit = 994]
      b d(1,3) r unfolding sp by blast
  have 3: "query_s7 example_db_s7 ''Zoe'' = Inr ''                ''"
    using query_unknown_key_spaces[where es = example_entries and os = example_owners
        and mkl = 3 and mvl = 16 and db = example_db_s7 and q = "''Zoe''"
        and Q = "map one_hot_row ''zoe''"]
      c d(1) unfolding sp by blast
  show ?thesis
    using a b c d(1,2) r(1) 1 2 3 by (simp only: simp_thms)
qed

text \<open>
  Claim C3 as stated fails in \<^verbatim>\<open>TensorDB\<close> for the store with the one entry
  \<^verbatim>\<open>Bob\<close>, \<^verbatim>\<open>(123) 456-7890\<close> and the query \<^verbatim>\<open>hey\<close>, whose encoding is not a key
  of the store: the query returns a string of fourteen spaces, as in the notebook.
\<close>

theorem query_unknown_key_counterexample:
  "(case add_entries_s5 example_hash example_field TensorDB [(''Bob'', ''(123) 456-7890'')] of
      Inl e \<Rightarrow> False
    | Inr db \<Rightarrow> string2key_s5 example_hash example_field ''hey'' \<notin> set (tdb_keys db) \<and>
               query_s5 example_hash example_field db ''hey'' = Inr ''              '') \<and>
   CHR ''.'' \<notin> set ''              ''"
  by code_simp

section \<open>The retry of Section 6\<close>

lemma pass_s6_all_sentinel:
  assumes "\<forall>s. set (set_list s) = set s"
    and "all_sentinel (attempt_s6 get hash fld db q)"
  shows "pass_s6 set_list get hash fld db q = Retry"
proof -
  from assms(2) obtain s where s: "attempt_s6 get hash fld db q = Inr s" "s \<noteq> []"
      "\<forall>c\<in>set s. c = CHR ''.''"
    by (auto simp: all_sentinel_def list_all_iff split: sum.splits)
  have "set (set_list s) = set s" using assms(1) by simp
  with s(2) obtain c cs where l: "set_list s = c # cs" and "c \<in> set s"
    by (cases "set_list s") auto
  with s(3) have "c = CHR ''.''" by simp
  with s(1) l show ?thesis by (simp add: pass_s6_def)
qed

lemma pass_s6_no_sentinel:
  assumes "\<forall>s. set (set_list s) = set s"
    and "no_sentinel (attempt_s6 get hash fld db q)"
  shows "pass_s6 set_list get hash fld db q = Finished (final_outcome (attempt_s6 get hash fld db q))"
proof (cases "attempt_s6 get hash fld db q")
  case (Inl e)
  then show ?thesis by (simp add: pass_s6_def final_outcome_def)
next
  case (Inr s)
  have eq: "set (set_list s) = set s" using assms(1) by simp
  show ?thesis
  proof (cases "set_list s")
    case Nil
    with eq have "s = []" by simp
    with Inr Nil show ?thesis by (simp add: pass_s6_def final_outcome_def)
  next
    case (Cons c cs)
    with eq have "c \<in> set s" by auto
    moreover have "CHR ''.'' \<notin> set s" using assms(2) Inr by (simp add: no_sentinel_def)
    ultimately have "c \<noteq> CHR ''.''" and "s \<noteq> []" by auto
    with Inr Cons show ?thesis by (simp add: pass_s6_def final_outcome_def)
  qed
qed

lemma query_s6_from_returns:
  assumes "\<forall>s. set (set_list s) = set s"
  shows "(\<forall>j<m. all_sentinel (attempt_s6 (gets (n + j)) hash fld db q)) \<Longrightarrow>
   no_sentinel (attempt_s6 (gets (n + m)) hash fld db q) \<Longrightarrow> m \<le> limit \<Longrightarrow>
   query_s6_from set_list gets hash fld db q limit n =
     final_outcome (attempt_s6 (gets (n + m)) hash fld db q)"
proof (induction m arbitrary: n limit)
  case 0
  then have "pass_s6 set_list (gets n) hash fld db q =
      Finished (final_outcome (attempt_s6 (gets n) hash fld db q))"
    using pass_s6_no_sentinel[OF assms] by simp
  then show ?case by (cases limit) simp_all
next
  case (Suc m)
  from Suc.prems(3) obtain l where l: "limit = Suc l" "m \<le> l" by (cases limit) auto
  have "all_sentinel (attempt_s6 (gets n) hash fld db q)"
    using Suc.prems(1)[rule_format, of 0] by simp
  then have a: "pass_s6 set_list (gets n) hash fld db q = Retry"
    by (rule pass_s6_all_sentinel[OF assms])
  have b: "\<forall>j<m. all_sentinel (attempt_s6 (gets (Suc n + j)) hash fld db q)"
    using Suc.prems(1) by (metis Suc_less_eq add_Suc_right add_Suc)
  have c: "no_sentinel (attempt_s6 (gets (Suc n + m)) hash fld db q)"
    using Suc.prems(2) by simp
  show ?case
    using Suc.IH[OF b c l(2)] a by (simp add: l(1))
qed

lemma query_s6_from_exhausts:
  assumes "\<forall>s. set (set_list s) = set s"
  shows "(\<forall>j\<le>limit. all_sentinel (attempt_s6 (gets (n + j)) hash fld db q)) \<Longrightarrow>
   query_s6_from set_list gets hash fld db q limit n = Inl RecursionError"
proof (induction limit arbitrary: n)
  case 0
  then have "pass_s6 set_list (gets n) hash fld db q = Retry"
    using pass_s6_all_sentinel[OF assms] by simp
  then show ?case by simp
next
  case (Suc limit)
  have "all_sentinel (attempt_s6 (gets n) hash fld db q)"
    using Suc.prems[rule_format, of 0] by simp
  then have a: "pass_s6 set_list (gets n) hash fld db q = Retry"
    by (rule pass_s6_all_sentinel[OF assms])
  have b: "\<forall>j\<le>limit. all_sentinel (attempt_s6 (gets (Suc n + j)) hash fld db q)"
    using Suc.prems by (metis Suc_le_mono add_Suc_right add_Suc)
  show ?case using Suc.IH[OF b] a by simp
qed

lemma query_s6_from_bounded:
  "query_s6_from set_list gets hash fld db q limit n = Inl RecursionError \<or>
   (\<exists>j\<le>limit. pass_s6 set_list (gets (n + j)) hash fld db q =
      Finished (query_s6_from set_list gets hash fld db q limit n))"
proof (induction limit arbitrary: n)
  case 0
  then show ?case by (cases "pass_s6 set_list (gets n) hash fld db q") auto
next
  case (Suc limit)
  show ?case
  proof (cases "pass_s6 set_list (gets n) hash fld db q")
    case Retry
    from Suc.IH[of "Suc n"] show ?thesis
    proof
      assume "query_s6_from set_list gets hash fld db q limit (Suc n) = Inl RecursionError"
      with Retry show ?thesis by simp
    next
      assume "\<exists>j\<le>limit. pass_s6 set_list (gets (Suc n + j)) hash fld db q =
        Finished (query_s6_from set_list gets hash fld db q limit (Suc n))"
      then obtain j where "j \<le> limit" "pass_s6 set_list (gets (n + Suc j)) hash fld db q =
        Finished (query_s6_from set_list gets hash fld db q limit (Suc n))" by auto
      with Retry have "Suc j \<le> Suc limit \<and> pass_s6 set_list (gets (n + Suc j)) hash fld db q =
        Finished (query_s6_from set_list gets hash fld db q (Suc limit) n)" by simp
      then show ?thesis by blast
    qed
  next
    case (Finished r)
    then have "pass_s6 set_list (gets (n + 0)) hash fld db q =
        Finished (query_s6_from set_list gets hash fld db q (Suc limit) n)" by simp
    then show ?thesis by blast
  qed
qed

text \<open>
  Claim C2 (on an all-sentinel decode the query retries at most \<open>max_retries\<close> times and
  then ends with a retry-exhausted or not-found result, so it always terminates), as
  amended. The query of Section 6 has no configured ceiling and no such result; the
  interpreter's recursion limit is its only ceiling. A pass whose decode is all sentinels
  asks for a retry, whatever the order in which the set of its characters is listed. When
  \<open>m\<close> passes in a row decode to all sentinels, \<open>m\<close> is within the limit, and the next
  pass raises or decodes to a string without a sentinel, the query returns or raises what
  that pass does. When the passes decode to all sentinels up to the limit, the query
  raises \<^verbatim>\<open>RecursionError\<close>. In every case the query ends: with
  \<^verbatim>\<open>RecursionError\<close>, or with what one of its first \<open>limit + 1\<close> passes returns or
  raises.
\<close>

theorem query_s6_retries_to_recursion_limit:
  "((\<forall>s. set (set_list s) = set s) \<and>
    (\<forall>j<m. all_sentinel (attempt_s6 (gets (n + j)) hash fld db q)) \<and>
    no_sentinel (attempt_s6 (gets (n + m)) hash fld db q) \<and> m \<le> limit \<longrightarrow>
      query_s6_from set_list gets hash fld db q limit n =
        final_outcome (attempt_s6 (gets (n + m)) hash fld db q)) \<and>
   ((\<forall>s. set (set_list s) = set s) \<and>
    (\<forall>j\<le>limit. all_sentinel (attempt_s6 (gets (n + j)) hash fld db q)) \<longrightarrow>
      query_s6_from set_list gets hash fld db q limit n = Inl RecursionError) \<and>
   (query_s6_from set_list gets hash fld db q limit n = Inl RecursionError \<or>
    (\<exists>j\<le>limit. pass_s6 set_list (gets (n + j)) hash fld db q =
       Finished (query_s6_from set_list gets hash fld db q limit n))) \<and>
   query_s6 set_list gets limit hash fld db q = query_s6_from set_list gets hash fld db q limit 0"
  using query_s6_from_returns[of set_list m gets n hash fld db q limit]
    query_s6_from_exhausts[of set_list limit gets n hash fld db q]
    query_s6_from_bounded[of set_list gets hash fld db q limit n]
  by (simp add: query_s6_def)

theorem query_s6_retries_to_recursion_limit_witness:
  "((\<forall>s. set (remdups s) = set s) \<and>
    list_all (\<lambda>j. all_sentinel
        (attempt_s6 (noisy_gets 6 (0 + j)) example_hash example_field example_db_s6 ''Bill'')) [0..<6] \<and>
    no_sentinel
        (attempt_s6 (noisy_gets 6 (0 + 6)) example_hash example_field example_db_s6 ''Bill'') \<and>
    (6::nat) \<le> 994) \<and>
   query_s6_from remdups (noisy_gets 6) example_hash example_field example_db_s6 ''Bill'' 994 0 =
     Inr ''(234) 567-8901'' \<and>
   (\<exists>j\<le>994. pass_s6 remdups (noisy_gets 6 (0 + j)) example_hash example_field example_db_s6 ''Bill'' =
      Finished (Inr ''(234) 567-8901'')) \<and>
   (\<forall>j. all_sentinel
        (attempt_s6 ((\<lambda>n. map (\<lambda>x. - 1)) (0 + j)) example_hash example_field example_db_s6 ''Bill'')) \<and>
   query_s6_from remdups (\<lambda>n. map (\<lambda>x. - 1)) example_hash example_field example_db_s6 ''Bill'' 994 0 =
     Inl RecursionError"
proof -
  let ?noise = "map (\<lambda>x. - 1) :: tensor \<Rightarrow> tensor"
  have r: "\<forall>s. set (remdups s) = set s" by simp
  have bad: "all_sentinel (attempt_s6 ?noise example_hash example_field example_db_s6 ''Bill'')"
    by code_simp
  have good: "no_sentinel (attempt_s6 (\<lambda>t. t) example_hash example_field example_db_s6 ''Bill'')"
    "final_outcome (attempt_s6 (\<lambda>t. t) example_hash example_field example_db_s6 ''Bill'') =
       Inr ''(234) 567-8901''"
    by code_simp+
  have n1: "noisy_gets 6 (0 + j) = ?noise" if "j < 6" for j
    using that by (auto simp: noisy_gets_def)
  have n2: "noisy_gets 6 (0 + 6) = (\<lambda>t. t)"
    by (auto simp: noisy_gets_def)
  have h1: "\<forall>j<6. all_sentinel
        (attempt_s6 (noisy_gets 6 (0 + j)) example_hash example_field example_db_s6 ''Bill'')"
    using bad n1 by simp
  have h1': "list_all (\<lambda>j. all_sentinel
        (attempt_s6 (noisy_gets 6 (0 + j)) example_hash example_field example_db_s6 ''Bill'')) [0..<6]"
    using h1 by (simp add: list_all_iff)
  have h2: "no_sentinel
        (attempt_s6 (noisy_gets 6 (0 + 6)) example_hash example_field example_db_s6 ''Bill'')"
    unfolding n2 by (rule good(1))
  have h3: "\<forall>j. all_sentinel
        (attempt_s6 ((\<lambda>n. ?noise) (0 + j)) example_hash example_field example_db_s6 ''Bill'')"
    using bad by simp
  have le: "(6::nat) \<le> 994" by simp
  note T = query_s6_retries_to_recursion_limit[where set_list = remdups and n = 0
      and hash = example_hash and fld = example_field and db = example_db_s6 and q = "''Bill''"
      and limit = 994]
  have 1: "query_s6_from remdups (noisy_gets 6) example_hash example_field example_db_s6 ''Bill'' 994 0 =
     Inr ''(234) 567-8901''"
    using T[where gets = "noisy_gets 6" and m = 6] r h1 h2 le unfolding n2 good(2) by blast
  have 2: "query_s6_from remdups (\<lambda>n. ?noise) example_hash example_field example_db_s6 ''Bill'' 994 0 =
     Inl RecursionError"
    using T[where gets = "\<lambda>n. ?noise"] r h3 by blast
  have 3: "\<exists>j\<le>994. pass_s6 remdups (noisy_gets 6 (0 + j)) example_hash example_field example_db_s6 ''Bill'' =
      Finished (Inr ''(234) 567-8901'')"
    using T[where gets = "noisy_gets 6"] unfolding 1 by blast
  show ?thesis
    using r h1' h2 le h3 1 2 3 by (simp only: simp_thms)
qed

text \<open>
  Claim C2 as stated fails on the notebook's store: after six passes in a row that decode
  to all sentinels, the query for \<^verbatim>\<open>Bill\<close> goes on to a seventh pass and returns the
  value, with no retry-exhausted result at any configured ceiling. And a store with the
  entries \<^verbatim>\<open>Bob\<close>, \<^verbatim>\<open>~\<close> and \<^verbatim>\<open>Bob\<close>, \<^verbatim>\<open>~\<close> sums the two codes 94 to 188,
  which decodes to the sentinel in every pass: the query for \<^verbatim>\<open>Bob\<close> ends at the
  recursion limit with \<^verbatim>\<open>RecursionError\<close>, not with a not-found result.
\<close>

theorem query_s6_retry_counterexample:
  "list_all (\<lambda>j. attempt_s6 (noisy_gets 6 j) example_hash example_field example_db_s6 ''Bill'' =
                Inr ''..............'') [0..<6] \<and>
   query_s6 remdups (noisy_gets 6) 994 example_hash example_field example_db_s6 ''Bill'' =
     Inr ''(234) 567-8901'' \<and>
   add_entries_s6 example_hash example_field (DecentralizedDB_s6 example_owners)
      [(''Bob'', ''~''), (''Bob'', ''~'')] =
     Inr \<lparr>hdb_owners = example_owners, hdb_keys = [276736, 276736], hdb_values = [[94], [94]]\<rparr> \<and>
   attempt_s6 (\<lambda>t. t) example_hash example_field
     \<lparr>hdb_owners = example_owners, hdb_keys = [276736, 276736], hdb_values = [[94], [94]]\<rparr> ''Bob'' =
     Inr ''.'' \<and>
   query_s6 remdups (\<lambda>n t. t) 994 example_hash example_field
     \<lparr>hdb_owners = example_owners, hdb_keys = [276736, 276736], hdb_values = [[94], [94]]\<rparr> ''Bob'' =
     Inl RecursionError"
proof -
  let ?db = "\<lparr>hdb_owners = example_owners, hdb_keys = [276736, 276736], hdb_values = [[94], [94]]\<rparr>"
  let ?noise = "map (\<lambda>x. - 1) :: tensor \<Rightarrow> tensor"
  have r: "\<forall>s. set (remdups s) = set s" by simp
  have a: "add_entries_s6 example_hash example_field (DecentralizedDB_s6 example_owners)
      [(''Bob'', ''~''), (''Bob'', ''~'')] = Inr ?db"
    "attempt_s6 (\<lambda>t. t) example_hash example_field ?db ''Bob'' = Inr ''.''"
    by code_simp+
  have b: "all_sentinel (attempt_s6 (\<lambda>t. t) example_hash example_field ?db ''Bob'')"
    unfolding a(2) by code_simp
  have 1: "query_s6 remdups (\<lambda>n t. t) 994 example_hash example_field ?db ''Bob'' = Inl RecursionError"
    unfolding query_s6_def by (rule query_s6_from_exhausts[OF r]) (simp add: b)
  have bad: "attempt_s6 ?noise example_hash example_field example_db_s6 ''Bill'' = Inr ''..............''"
    "all_sentinel (Inr ''..............'')"
    by code_simp+
  have good: "no_sentinel (attempt_s6 (\<lambda>t. t) example_hash example_field example_db_s6 ''Bill'')"
    "final_outcome (attempt_s6 (\<lambda>t. t) example_hash example_field example_db_s6 ''Bill'') =
       Inr ''(234) 567-8901''"
    by code_simp+
  have n1: "noisy_gets 6 j = ?noise" if "j < 6" for j
    using that by (auto simp: noisy_gets_def)
  have n2: "noisy_gets 6 6 = (\<lambda>t. t)"
    by (auto simp: noisy_gets_def)
  have 2: "list_all (\<lambda>j. attempt_s6 (noisy_gets 6 j) example_hash example_field example_db_s6 ''Bill'' =
                Inr ''..............'') [0..<6]"
    using bad(1) n1 by (simp add: list_all_iff)
  have "query_s6_from remdups (noisy_gets 6) example_hash example_field example_db_s6 ''Bill'' 994 0 =
      final_outcome (attempt_s6 (noisy_gets 6 (0 + 6)) example_hash example_field example_db_s6 ''Bill'')"
    using bad n1 good(1) by (intro query_s6_from_returns[OF r]) (simp_all add: n2)
  then have 3: "query_s6 remdups (noisy_gets 6) 994 example_hash example_field example_db_s6 ''Bill'' =
     Inr ''(234) 567-8901''"
    by (simp add: query_s6_def n2 good(2))
  show ?thesis using a 1 2 3 by (simp only: simp_thms)
qed

section \<open>The invariant of the store\<close>

lemma add_entry_s7_appends:
  "add_entry_s7 db k v = Inr db' \<Longrightarrow>
   \<exists>key val. string2one_hot_matrix k (max_key_len db) = Inr key \<and>
     string2values_s7 v (max_value_len db) = Inr val \<and>
     db' = db\<lparr>db_keys := db_keys db @ [key], db_values := db_values db @ [val]\<rparr>"
  by (auto simp: add_entry_s7_def split: sum.splits)

lemma add_entry_s6_appends:
  "add_entry_s6 hash fld db k v = Inr db' \<Longrightarrow>
   \<exists>val. string2values_s5 v = Inr val \<and>
     db' = db\<lparr>hdb_keys := hdb_keys db @ [string2key_s6 hash fld k],
              hdb_values := hdb_values db @ [val]\<rparr>"
  by (auto simp: add_entry_s6_def Let_def split: sum.splits)

lemma step_s7_length:
  assumes "length (db_keys db) = length (db_values db)"
  shows "length (db_keys (fst (step_s7 db c))) = length (db_values (fst (step_s7 db c)))"
proof (cases c)
  case (Add_entry k v)
  show ?thesis
  proof (cases "add_entry_s7 db k v")
    case (Inl e)
    with Add_entry assms show ?thesis by simp
  next
    case (Inr db')
    from add_entry_s7_appends[OF this] Inr Add_entry assms show ?thesis by auto
  qed
next
  case (Query q)
  with assms show ?thesis by simp
qed

lemma run_s7_length:
  "length (db_keys db) = length (db_values db) \<Longrightarrow>
   length (db_keys (run_s7 db cs)) = length (db_values (run_s7 db cs))"
  by (induction cs arbitrary: db) (simp_all add: step_s7_length)

text \<open>
  \<^verbatim>\<open>TensorDB.add_entry\<close> of Section 5, by contrast, appends the key before it encodes
  the value: a value that raises leaves the list of keys one longer than the list of
  values.
\<close>

lemma add_entry_s5_raises:
  assumes "\<not> set v \<subseteq> set alphabet_s5"
  shows "add_entry_s5 hash fld db k v =
           (Some KeyError, db\<lparr>tdb_keys := tdb_keys db @ [string2key_s5 hash fld k]\<rparr>)"
  using assms by (simp add: add_entry_s5_def string2values_s5_eq)

text \<open>
  Claim C10: every operation keeps the list of keys and the list of values of one
  length. \<^verbatim>\<open>add_entry\<close> of Section 7 and of Section 6, when it returns, has appended
  one encoding to each list, and when it raises the store is the one before the call; a
  query leaves the store as it is, whether it returns or raises; and after any session that
  starts from a new store the two lists have one length.
\<close>

theorem store_lists_equal_length:
  "(add_entry_s7 db k v = Inr db' \<longrightarrow>
      (\<exists>key val. string2one_hot_matrix k (max_key_len db) = Inr key \<and>
         string2values_s7 v (max_value_len db) = Inr val \<and>
         db_keys db' = db_keys db @ [key] \<and> db_values db' = db_values db @ [val] \<and>
         max_key_len db' = max_key_len db \<and> max_value_len db' = max_value_len db \<and>
         owners db' = owners db)) \<and>
   (add_entry_s6 hash fld hdb k v = Inr hdb' \<longrightarrow>
      (\<exists>val. string2values_s5 v = Inr val \<and>
         hdb_keys hdb' = hdb_keys hdb @ [string2key_s6 hash fld k] \<and>
         hdb_values hdb' = hdb_values hdb @ [val] \<and> hdb_owners hdb' = hdb_owners hdb)) \<and>
   (add_entry_s7 db k v = Inl e \<longrightarrow> step_s7 db (Add_entry k v) = (db, Raised e)) \<and>
   fst (step_s7 db (Query q)) = db \<and>
   (length (db_keys db) = length (db_values db) \<longrightarrow>
      length (db_keys (fst (step_s7 db c))) = length (db_values (fst (step_s7 db c))) \<and>
      length (db_keys (run_s7 db cs)) = length (db_values (run_s7 db cs))) \<and>
   length (db_keys (run_s7 (DecentralizedDB_s7 os mkl mvl) cs)) =
     length (db_values (run_s7 (DecentralizedDB_s7 os mkl mvl) cs))"
proof -
  have "length (db_keys (run_s7 (DecentralizedDB_s7 os mkl mvl) cs)) =
     length (db_values (run_s7 (DecentralizedDB_s7 os mkl mvl) cs))"
    by (rule run_s7_length) (simp add: DecentralizedDB_s7_def)
  then show ?thesis
    using add_entry_s7_appends[of db k v db'] add_entry_s6_appends[of hash fld hdb k v hdb']
      step_s7_length[of db c] run_s7_length[of db cs]
    by auto
qed

theorem store_lists_equal_length_witness:
  "add_entry_s7 example_db_s7 ''Key'' ''really big json value'' =
     Inr (example_db_s7\<lparr>db_keys := db_keys example_db_s7 @ [map one_hot_row ''key''],
            db_values := db_values example_db_s7 @ [map code_s7 ''really big json '']\<rparr>) \<and>
   add_entry_s6 example_hash example_field example_db_s6 ''Sam'' ''(345) 678-9012'' =
     Inr (example_db_s6\<lparr>hdb_keys := hdb_keys example_db_s6 @ [string2key_s6 example_hash example_field ''Sam''],
            hdb_values := hdb_values example_db_s6 @ [map code_s5 ''(345) 678-9012'']\<rparr>) \<and>
   add_entry_s7 example_db_s7 (''Jo'' @ [CHR 0xE9]) ''x'' = Inl KeyError \<and>
   step_s7 example_db_s7 (Add_entry (''Jo'' @ [CHR 0xE9]) ''x'') = (example_db_s7, Raised KeyError) \<and>
   length (db_keys example_db_s7) = length (db_values example_db_s7) \<and>
   length (db_keys (fst (step_s7 example_db_s7 (Add_entry ''Key'' ''v'')))) =
     length (db_values (fst (step_s7 example_db_s7 (Add_entry ''Key'' ''v'')))) \<and>
   length (db_keys (run_s7 example_db_s7 [Add_entry ''Key'' ''v'', Query ''Key''])) =
     length (db_values (run_s7 example_db_s7 [Add_entry ''Key'' ''v'', Query ''Key'']))"
proof -
  have a: "add_entry_s7 example_db_s7 ''Key'' ''really big json value'' =
     Inr (example_db_s7\<lparr>db_keys := db_keys example_db_s7 @ [map one_hot_row ''key''],
            db_values := db_values example_db_s7 @ [map code_s7 ''really big json '']\<rparr>)"
    "add_entry_s6 example_hash example_field example_db_s6 ''Sam'' ''(345) 678-9012'' =
     Inr (example_db_s6\<lparr>hdb_keys := hdb_keys example_db_s6 @ [string2key_s6 example_hash example_field ''Sam''],
            hdb_values := hdb_values example_db_s6 @ [map code_s5 ''(345) 678-9012'']\<rparr>)"
    "add_entry_s7 example_db_s7 (''Jo'' @ [CHR 0xE9]) ''x'' = Inl KeyError"
    by code_simp+
  have l: "length (db_keys example_db_s7) = length (db_values example_db_s7)"
    by (simp add: example_db_s7_def)
  have 1: "step_s7 example_db_s7 (Add_entry (''Jo'' @ [CHR 0xE9]) ''x'') = (example_db_s7, Raised KeyError)"
    using store_lists_equal_length[where db = example_db_s7 and k = "''Jo'' @ [CHR 0xE9]"
        and v = "''x''" and e = KeyError] a(3) by blast
  have 2: "length (db_keys (fst (step_s7 example_db_s7 (Add_entry ''Key'' ''v'')))) =
        length (db_values (fst (step_s7 example_db_s7 (Add_entry ''Key'' ''v'')))) \<and>
      length (db_keys (run_s7 example_db_s7 [Add_entry ''Key'' ''v'', Query ''Key''])) =
        length (db_values (run_s7 example_db_s7 [Add_entry ''Key'' ''v'', Query ''Key'']))"
    using store_lists_equal_length[where db = example_db_s7 and c = "Add_entry ''Key'' ''v''"
        and cs = "[Add_entry ''Key'' ''v'', Query ''Key'']"] l by blast
  show ?thesis using a l 1 2 by (simp only: simp_thms)
qed

end
